theory Spec2Isabelle
  imports Main "HOL-Library.Word" "HOL-Library.Multiset"
begin

section \<open>Machine types and Win32 constants\<close>

text \<open>
  The library is written against the Win32 API on a 64-bit target: a \<open>DWORD\<close> is an
  unsigned 32-bit integer, \<open>size_t\<close> an unsigned 64-bit integer and a \<open>HANDLE\<close> a
  pointer-sized value. Arithmetic on words wraps around, and \<open><\<close> on words is the
  unsigned comparison, as in the C++.
\<close>

type_synonym byte = "8 word"
type_synonym DWORD = "32 word"
type_synonym size_t = "64 word"
type_synonym HANDLE = "64 word"

definition NULL :: HANDLE where
  "NULL = 0"

definition INVALID_HANDLE_VALUE :: HANDLE where
  "INVALID_HANDLE_VALUE = - 1"

definition ERROR_SUCCESS :: DWORD where
  "ERROR_SUCCESS = 0"

definition ERROR_IO_PENDING :: DWORD where
  "ERROR_IO_PENDING = 997"

definition STATUS_WAIT_0 :: DWORD where
  "STATUS_WAIT_0 = 0"

definition WAIT_TIMEOUT :: DWORD where
  "WAIT_TIMEOUT = 258"

definition WAIT_FAILED :: DWORD where
  "WAIT_FAILED = - 1"

section \<open>The data of a session\<close>

text \<open>
  \<open>PrintFunc\<close> is a \<open>std::function\<close>: it is either empty (\<open>nullptr\<close>) or holds a
  callable. A callable is known to the model by its identity only; calling it is
  recorded as an event.
\<close>

datatype print_fn = DefaultPrintFunc | UserPrintFunc nat

record PROCESS_INFORMATION =
  hProcess :: HANDLE
  hThread :: HANDLE
  dwProcessId :: DWORD
  dwThreadId :: DWORD

record Pipe =
  m_procinfo :: PROCESS_INFORMATION
  m_stdin_r :: HANDLE
  m_stdin_w :: HANDLE
  m_stdout_r :: HANDLE
  m_stdout_w :: HANDLE
  m_event :: HANDLE
  m_timeout_ms :: DWORD
  m_print_fn :: "print_fn option"

text \<open>The default member initialisers of the class.\<close>

definition Pipe_init :: Pipe where
  "Pipe_init =
     \<lparr> m_procinfo = \<lparr> hProcess = 0, hThread = 0, dwProcessId = 0, dwThreadId = 0 \<rparr>,
       m_stdin_r = INVALID_HANDLE_VALUE, m_stdin_w = INVALID_HANDLE_VALUE,
       m_stdout_r = INVALID_HANDLE_VALUE, m_stdout_w = INVALID_HANDLE_VALUE,
       m_event = NULL, m_timeout_ms = 10000,
       m_print_fn = Some DefaultPrintFunc \<rparr>"

definition SetPrintFunc :: "print_fn option \<Rightarrow> Pipe \<Rightarrow> Pipe" where
  "SetPrintFunc fn p = p\<lparr>m_print_fn := fn\<rparr>"

record OVERLAPPED =
  InternalHigh :: "64 word"
  hEvent :: HANDLE

section \<open>The operating system\<close>

text \<open>
  Every call of the program into the operating system, and every call of the print
  callback, is an event; the events of a run are kept in program order.
  \<open>EvWriteFile h off n\<close> is a write of \<open>n\<close> bytes that start \<open>off\<close> bytes into the
  caller's buffer.
\<close>

datatype event =
    EvCreateNamedPipeA string DWORD DWORD
  | EvCreateFileA string
  | EvCloseHandle HANDLE
  | EvWriteFile HANDLE nat DWORD
  | EvWaitForMultipleObjects "HANDLE list" bool DWORD
  | EvGetOverlappedResult HANDLE bool
  | EvWaitForSingleObject HANDLE DWORD
  | EvTerminateProcess HANDLE DWORD
  | EvPeekNamedPipe HANDLE
  | EvReadFile HANDLE DWORD
  | EvPrint print_fn "byte list"

text \<open>
  What the operating system and the child process do is not decided by the program.
  It is given by an environment: the answer to the \<open>t\<close>-th call. One answer serves one
  call, which reads the fields that concern it: whether the call succeeds, the error
  code it leaves otherwise, how many bytes the input channel takes from a write, the
  code a wait returns, the handle a creation returns, and the bytes the child has put
  on its output since the call before.
\<close>

record os_reply =
  r_ok :: bool
  r_error :: DWORD
  r_count :: nat
  r_wait :: DWORD
  r_handle :: HANDLE
  r_child_out :: "byte list"

type_synonym env = "nat \<Rightarrow> os_reply"

text \<open>
  The part of the world the program acts on: the number of calls made so far, the
  identifier of the running process, the thread's last-error value, the bytes the
  child's input stream has received, the bytes waiting in the output channel, and the
  events so far.
\<close>

record world =
  clock :: nat
  process_id :: DWORD
  last_error :: DWORD
  child_stdin :: "byte list"
  stdout_buf :: "byte list"
  events :: "event list"

text \<open>
  The output channel is created with a buffer of \<open>4096 * 4096\<close> bytes (the argument
  of \<open>CreatePipePair\<close> in \<open>Pipe::Create\<close>); the channel never holds more, the child
  being blocked in its write meanwhile.
\<close>

definition stdout_capacity :: nat where
  "stdout_capacity = 4096 * 4096"

text \<open>
  A call \<open>e\<close> made in the world \<open>w\<close> is answered by \<open>env (clock w)\<close>. When it returns,
  the child has run meanwhile and the call is on record.
\<close>

definition after_call :: "env \<Rightarrow> event \<Rightarrow> world \<Rightarrow> world" where
  "after_call env e w =
     w\<lparr> clock := Suc (clock w),
        stdout_buf := take stdout_capacity (stdout_buf w @ r_child_out (env (clock w))),
        events := events w @ [e] \<rparr>"

definition GetLastError :: "world \<Rightarrow> DWORD" where
  "GetLastError w = last_error w"

definition SetLastError :: "DWORD \<Rightarrow> world \<Rightarrow> world" where
  "SetLastError e w = w\<lparr>last_error := e\<rparr>"

text \<open>
  \<open>WriteFile\<close> on the overlapped handle. The channel takes \<open>r_count\<close> bytes of the
  request, never more than requested, and they reach the child's input stream in the
  order of the buffer. The call either completes at once, or stays pending (it returns
  false with \<open>ERROR_IO_PENDING\<close> and the transfer goes on by itself), or fails with
  another error and transfers nothing. The count transferred is kept in the
  \<open>OVERLAPPED\<close> structure. \<open>data\<close> is the memory from the buffer's address on.
\<close>

definition WriteFile ::
  "env \<Rightarrow> HANDLE \<Rightarrow> (nat \<Rightarrow> byte) \<Rightarrow> nat \<Rightarrow> DWORD \<Rightarrow> OVERLAPPED \<Rightarrow> world
     \<Rightarrow> bool \<times> OVERLAPPED \<times> world" where
  "WriteFile env h data off n ov w =
     (let r = env (clock w); w1 = after_call env (EvWriteFile h off n) w;
          k = min (r_count r) (unat n)
      in
        if r_ok r then
          (True, ov\<lparr>InternalHigh := of_nat k\<rparr>,
           w1\<lparr>child_stdin := child_stdin w1 @ map data [off ..< off + k]\<rparr>)
        else if r_error r = ERROR_IO_PENDING then
          (False, ov\<lparr>InternalHigh := of_nat k\<rparr>,
           w1\<lparr>child_stdin := child_stdin w1 @ map data [off ..< off + k],
              last_error := ERROR_IO_PENDING\<rparr>)
        else (False, ov, w1\<lparr>last_error := r_error r\<rparr>))"

definition WaitForMultipleObjects ::
  "env \<Rightarrow> HANDLE list \<Rightarrow> bool \<Rightarrow> DWORD \<Rightarrow> world \<Rightarrow> DWORD \<times> world" where
  "WaitForMultipleObjects env hs wait_all timeout w =
     (let r = env (clock w);
          w1 = after_call env (EvWaitForMultipleObjects hs wait_all timeout) w
      in
        (r_wait r, if r_wait r = WAIT_FAILED then w1\<lparr>last_error := r_error r\<rparr> else w1))"

definition WaitForSingleObject :: "env \<Rightarrow> HANDLE \<Rightarrow> DWORD \<Rightarrow> world \<Rightarrow> DWORD \<times> world" where
  "WaitForSingleObject env h timeout w =
     (let r = env (clock w); w1 = after_call env (EvWaitForSingleObject h timeout) w in
        (r_wait r, if r_wait r = WAIT_FAILED then w1\<lparr>last_error := r_error r\<rparr> else w1))"

text \<open>The third component is the value left in \<open>*lpNumberOfBytesTransferred\<close>.\<close>

definition GetOverlappedResult ::
  "env \<Rightarrow> HANDLE \<Rightarrow> OVERLAPPED \<Rightarrow> bool \<Rightarrow> world \<Rightarrow> bool \<times> DWORD \<times> world" where
  "GetOverlappedResult env h ov bWait w =
     (let r = env (clock w); w1 = after_call env (EvGetOverlappedResult h bWait) w in
        if r_ok r then (True, ucast (InternalHigh ov), w1)
        else (False, 0, w1\<lparr>last_error := r_error r\<rparr>))"

definition CloseHandle :: "env \<Rightarrow> HANDLE \<Rightarrow> world \<Rightarrow> bool \<times> world" where
  "CloseHandle env h w =
     (let r = env (clock w); w1 = after_call env (EvCloseHandle h) w in
        (r_ok r, if r_ok r then w1 else w1\<lparr>last_error := r_error r\<rparr>))"

definition TerminateProcess :: "env \<Rightarrow> HANDLE \<Rightarrow> DWORD \<Rightarrow> world \<Rightarrow> bool \<times> world" where
  "TerminateProcess env h code w =
     (let r = env (clock w); w1 = after_call env (EvTerminateProcess h code) w in
        (r_ok r, if r_ok r then w1 else w1\<lparr>last_error := r_error r\<rparr>))"

text \<open>
  \<open>PeekNamedPipe\<close> with no buffer: it reports how many bytes wait in the channel and
  takes none.
\<close>

definition PeekNamedPipe :: "env \<Rightarrow> HANDLE \<Rightarrow> world \<Rightarrow> bool \<times> DWORD \<times> world" where
  "PeekNamedPipe env h w =
     (let r = env (clock w); w1 = after_call env (EvPeekNamedPipe h) w in
        if r_ok r then (True, of_nat (length (stdout_buf w1)), w1)
        else (False, 0, w1\<lparr>last_error := r_error r\<rparr>))"

text \<open>
  \<open>ReadFile\<close> on the blocking byte-mode pipe: it takes the bytes that wait, up to the
  count requested, from the front of the channel. A read of an empty channel does not
  return (\<open>None\<close>).
\<close>

definition ReadFile ::
  "env \<Rightarrow> HANDLE \<Rightarrow> DWORD \<Rightarrow> world \<Rightarrow> (bool \<times> byte list \<times> world) option" where
  "ReadFile env h n w =
     (let r = env (clock w); w1 = after_call env (EvReadFile h n) w in
        if \<not> r_ok r then Some (False, [], w1\<lparr>last_error := r_error r\<rparr>)
        else if stdout_buf w1 = [] \<and> n \<noteq> 0 then None
        else Some (True, take (unat n) (stdout_buf w1),
                   w1\<lparr>stdout_buf := drop (unat n) (stdout_buf w1)\<rparr>))"

definition call_print_fn :: "print_fn \<Rightarrow> byte list \<Rightarrow> world \<Rightarrow> world" where
  "call_print_fn f str w = w\<lparr>events := events w @ [EvPrint f str]\<rparr>"

section \<open>Pipe::ReadOutput\<close>

text \<open>The size of one read: what is left of the measured amount, at most \<open>sizeof(buffer)\<close>.\<close>

definition read_size :: "DWORD \<Rightarrow> DWORD \<Rightarrow> DWORD" where
  "read_size available total_read =
     (let rd = available - total_read
      in if (256 :: size_t) < ucast rd then 256 else rd)"

lemma unat_ucast_DWORD: "unat (ucast (x :: DWORD) :: size_t) = unat x"
  by (simp add: unsigned_ucast_eq take_bit_nat_eq_self_iff order_less_trans [OF unsigned_less])

lemma read_size_bounds:
  assumes "total_read < available"
  shows "0 < unat (read_size available total_read)"
    and "unat (read_size available total_read) \<le> unat available - unat total_read"
    and "unat (read_size available total_read) \<le> 256"
proof -
  have d: "unat (available - total_read) = unat available - unat total_read"
    using assms by (simp add: unat_sub order.strict_implies_order)
  have lt: "unat total_read < unat available"
    using assms by (simp add: word_less_nat_alt)
  have c: "((256 :: size_t) < ucast (available - total_read))
             = (256 < unat (available - total_read))"
    by (simp add: word_less_nat_alt unat_ucast_DWORD)
  show "0 < unat (read_size available total_read)"
    using d lt c by (simp add: read_size_def Let_def)
  show "unat (read_size available total_read) \<le> unat available - unat total_read"
    using d lt c by (simp add: read_size_def Let_def)
  show "unat (read_size available total_read) \<le> 256"
    using d lt c by (simp add: read_size_def Let_def)
qed

lemma ReadFile_chunk:
  assumes "ReadFile env h n w = Some (True, chunk, w1)" and "0 < unat n"
  shows "0 < length chunk" and "length chunk \<le> unat n"
  using assms
  by (auto simp: ReadFile_def Let_def unat_eq_0 split: if_splits)

function ReadOutput_loop ::
  "env \<Rightarrow> Pipe \<Rightarrow> DWORD \<Rightarrow> DWORD \<Rightarrow> world \<Rightarrow> (DWORD \<times> world) option" where
  "ReadOutput_loop env p available total_read w =
     (if total_read < available then
        (case ReadFile env (m_stdout_r p) (read_size available total_read) w of
           None \<Rightarrow> None
         | Some (ok, chunk, w1) \<Rightarrow>
             if \<not> ok then Some (total_read, w1)
             else ReadOutput_loop env p available (total_read + of_nat (length chunk))
                    (case m_print_fn p of
                       None \<Rightarrow> w1
                     | Some f \<Rightarrow> call_print_fn f chunk w1))
      else Some (total_read, w))"
  by pat_completeness auto

lemma read_progress:
  assumes lt: "total_read < available"
    and rd: "ReadFile env h (read_size available total_read) w = Some (True, chunk, w1)"
  shows "unat (total_read + of_nat (length chunk)) = unat total_read + length chunk"
    and "0 < length chunk"
    and "unat total_read + length chunk \<le> unat available"
proof -
  note b = read_size_bounds [OF lt]
  note c = ReadFile_chunk [OF rd b(1)]
  have lt': "unat total_read < unat available"
    using lt by (simp add: word_less_nat_alt)
  show "0 < length chunk" by (rule c(1))
  show le: "unat total_read + length chunk \<le> unat available"
    using c(2) b(2) lt' by linarith
  have "unat available < 2 ^ 32"
    using unsigned_less [of available] by simp
  then have "unat total_read + length chunk < 2 ^ LENGTH(32)"
    using le by simp
  then show "unat (total_read + of_nat (length chunk)) = unat total_read + length chunk"
    by (simp add: unat_word_ariths unat_of_nat)
qed

termination ReadOutput_loop
proof (relation "measure (\<lambda>(env, p, available, total_read, w). unat available - unat total_read)")
  show "wf (measure (\<lambda>(env, p, available, total_read, w). unat available - unat total_read))"
    by simp
next
  fix env :: env and p :: Pipe and available total_read :: DWORD and w :: world
    and x2 :: "bool \<times> byte list \<times> world" and x1 :: bool and x2a :: "byte list \<times> world"
    and chunk :: "byte list" and w1 :: world
  assume lt: "total_read < available"
    and rd: "ReadFile env (m_stdout_r p) (read_size available total_read) w = Some x2"
    and x2: "(x1, x2a) = x2" and x2a: "(chunk, w1) = x2a" and ok: "\<not> \<not> x1"
  from rd x2 x2a ok
  have rd': "ReadFile env (m_stdout_r p) (read_size available total_read) w = Some (True, chunk, w1)"
    by auto
  note pr = read_progress [OF lt rd']
  show "((env, p, available, total_read + of_nat (length chunk),
          case m_print_fn p of None \<Rightarrow> w1 | Some f \<Rightarrow> call_print_fn f chunk w1),
         env, p, available, total_read, w)
        \<in> measure (\<lambda>(env, p, available, total_read, w). unat available - unat total_read)"
    using pr(1) pr(2) pr(3) by (simp del: length_greater_0_conv)
qed

definition ReadOutput :: "env \<Rightarrow> Pipe \<Rightarrow> world \<Rightarrow> (size_t \<times> world) option" where
  "ReadOutput env p w =
     (case PeekNamedPipe env (m_stdout_r p) w of (ok, available, w1) \<Rightarrow>
        if \<not> ok then Some (0, w1)
        else (case ReadOutput_loop env p available 0 w1 of
                None \<Rightarrow> None
              | Some (total_read, w2) \<Rightarrow> Some (ucast total_read, w2)))"

section \<open>Pipe::Write\<close>

text \<open>
  One iteration of the loop of \<open>Write\<close> either returns false from \<open>Write\<close> or goes
  on to the next test of the loop condition with a new running total.
\<close>

datatype iteration = Failed world | Written DWORD OVERLAPPED world

definition Write_iteration ::
  "env \<Rightarrow> Pipe \<Rightarrow> (nat \<Rightarrow> byte) \<Rightarrow> size_t \<Rightarrow> DWORD \<Rightarrow> OVERLAPPED \<Rightarrow> world
     \<Rightarrow> iteration option" where
  "Write_iteration env p data len total_written overlapped w =
     (case WriteFile env (m_stdin_w p) data (unat total_written)
             (ucast len - total_written) overlapped w of
        (ok, ov1, w1) \<Rightarrow>
          if \<not> ok \<and> GetLastError w1 \<noteq> ERROR_IO_PENDING then Some (Failed w1)
          else
            let w2 = (if \<not> ok then SetLastError ERROR_SUCCESS w1 else w1) in
            (case WaitForMultipleObjects env [m_event p, hProcess (m_procinfo p)] False
                    (m_timeout_ms p) w2 of
               (res, w3) \<Rightarrow>
                 if res \<noteq> STATUS_WAIT_0 then Some (Failed w3)
                 else
                   (case GetOverlappedResult env (m_stdin_w p) ov1 False w3 of
                      (ok2, written, w4) \<Rightarrow>
                        if \<not> ok2 then Some (Failed w4)
                        else
                          (case ReadOutput env p w4 of
                             None \<Rightarrow> None
                           | Some (n, w5) \<Rightarrow>
                               Some (Written (total_written + written) ov1 w5)))))"

text \<open>
  The loop of \<open>Write\<close> need not end: nothing bounds the number of writes that transfer
  no byte. The first argument bounds the iterations still allowed; \<open>None\<close> is a run that
  needs more (or a drain that does not return).
\<close>

fun Write_loop ::
  "nat \<Rightarrow> env \<Rightarrow> Pipe \<Rightarrow> (nat \<Rightarrow> byte) \<Rightarrow> size_t \<Rightarrow> DWORD \<Rightarrow> OVERLAPPED \<Rightarrow> world
     \<Rightarrow> (bool \<times> world) option" where
  "Write_loop 0 env p data len total_written overlapped w =
     (if ucast total_written < len then None else Some (True, w))"
| "Write_loop (Suc fuel) env p data len total_written overlapped w =
     (if ucast total_written < len then
        (case Write_iteration env p data len total_written overlapped w of
           None \<Rightarrow> None
         | Some (Failed w1) \<Rightarrow> Some (False, w1)
         | Some (Written total_written1 overlapped1 w1) \<Rightarrow>
             Write_loop fuel env p data len total_written1 overlapped1 w1)
      else Some (True, w))"

definition Write ::
  "nat \<Rightarrow> env \<Rightarrow> Pipe \<Rightarrow> (nat \<Rightarrow> byte) \<Rightarrow> size_t \<Rightarrow> world \<Rightarrow> (bool \<times> world) option" where
  "Write fuel env p data len w =
     Write_loop fuel env p data len 0 \<lparr>InternalHigh = 0, hEvent = m_event p\<rparr> w"

section \<open>Pipe::Close and the destructor\<close>

definition Close :: "env \<Rightarrow> Pipe \<Rightarrow> DWORD \<Rightarrow> bool \<Rightarrow> world \<Rightarrow> (Pipe \<times> world) option" where
  "Close env p timeout_ms terminate w =
     (case CloseHandle env (m_stdin_w p) w of (_, w1) \<Rightarrow>
        let p1 = p\<lparr>m_stdin_w := INVALID_HANDLE_VALUE\<rparr> in
        (case WaitForSingleObject env (hProcess (m_procinfo p1)) timeout_ms w1 of
           (result, w2) \<Rightarrow>
             let w3 = (if result \<noteq> STATUS_WAIT_0 \<and> terminate
                       then snd (TerminateProcess env (hProcess (m_procinfo p1)) (- 1) w2)
                       else w2)
             in (case ReadOutput env p1 w3 of
                   None \<Rightarrow> None
                 | Some (n, w4) \<Rightarrow> Some (p1, w4))))"

text \<open>The two loops of the destructor, over \<open>null_handles\<close> and \<open>invalid_handles\<close>.\<close>

fun close_unless :: "env \<Rightarrow> HANDLE \<Rightarrow> HANDLE list \<Rightarrow> world \<Rightarrow> world" where
  "close_unless env sentinel [] w = w"
| "close_unless env sentinel (handle # handles) w =
     close_unless env sentinel handles
       (if handle \<noteq> sentinel then snd (CloseHandle env handle w) else w)"

definition Pipe_destructor :: "env \<Rightarrow> Pipe \<Rightarrow> world \<Rightarrow> world" where
  "Pipe_destructor env p w =
     (let invalid_handles = [m_stdin_r p, m_stdin_w p, m_stdout_r p, m_stdout_w p];
          null_handles = [m_event p, hProcess (m_procinfo p), hThread (m_procinfo p)];
          w1 = close_unless env NULL null_handles w
      in close_unless env INVALID_HANDLE_VALUE invalid_handles w1)"

section \<open>CreatePipePair\<close>

text \<open>
  The name of a channel is built with a \<open>std::stringstream\<close>: the fixed prefix, the
  identifier of the process in decimal, an underscore, the address \<open>out_read_pipe\<close> as
  the stream prints a pointer, an underscore, and \<open>name\<close>.
\<close>

function show_nat :: "nat \<Rightarrow> (nat \<Rightarrow> char) \<Rightarrow> nat \<Rightarrow> string" where
  "show_nat base digit n =
     (if n < base \<or> base < 2 then [digit n]
      else show_nat base digit (n div base) @ [digit (n mod base)])"
  by pat_completeness auto
termination
  by (relation "measure (\<lambda>(base, digit, n). n)") auto

definition decimal_digit :: "nat \<Rightarrow> char" where
  "decimal_digit d = ''0123456789'' ! d"

definition show_dec :: "nat \<Rightarrow> string" where
  "show_dec n = show_nat 10 decimal_digit n"

definition pipe_prefix :: string where
  "pipe_prefix =
     [CHR 0x5C, CHR 0x5C, CHR ''.'', CHR 0x5C] @ ''pipe'' @ [CHR 0x5C] @ ''ffmpipe_''"

text \<open>
  How the stream prints a pointer is left to the C++ implementation; it is a parameter
  \<open>show_ptr\<close> of the model.
\<close>

definition full_name :: "(64 word \<Rightarrow> string) \<Rightarrow> DWORD \<Rightarrow> 64 word \<Rightarrow> string \<Rightarrow> string" where
  "full_name show_ptr pid out_read_pipe name =
     pipe_prefix @ show_dec (unat pid) @ ''_'' @ show_ptr out_read_pipe @ ''_'' @ name"

definition GetCurrentProcessId :: "world \<Rightarrow> DWORD" where
  "GetCurrentProcessId w = process_id w"

text \<open>A creation call returns the new handle, or \<open>INVALID_HANDLE_VALUE\<close> when it fails.\<close>

definition CreateNamedPipeA ::
  "env \<Rightarrow> string \<Rightarrow> DWORD \<Rightarrow> DWORD \<Rightarrow> world \<Rightarrow> HANDLE \<times> world" where
  "CreateNamedPipeA env name buffer_size timeout_ms w =
     (let r = env (clock w);
          w1 = after_call env (EvCreateNamedPipeA name buffer_size timeout_ms) w
      in if r_ok r \<and> r_handle r \<noteq> INVALID_HANDLE_VALUE then (r_handle r, w1)
         else (INVALID_HANDLE_VALUE, w1\<lparr>last_error := r_error r\<rparr>))"

definition CreateFileA :: "env \<Rightarrow> string \<Rightarrow> world \<Rightarrow> HANDLE \<times> world" where
  "CreateFileA env name w =
     (let r = env (clock w); w1 = after_call env (EvCreateFileA name) w
      in if r_ok r \<and> r_handle r \<noteq> INVALID_HANDLE_VALUE then (r_handle r, w1)
         else (INVALID_HANDLE_VALUE, w1\<lparr>last_error := r_error r\<rparr>))"

text \<open>
  \<open>out_read_pipe\<close> is the address the caller passes; \<open>out\<close> is what the two output
  parameters point at when the function is called, and the second component of the
  result is what they point at when it returns.
\<close>

definition CreatePipePair ::
  "env \<Rightarrow> (64 word \<Rightarrow> string) \<Rightarrow> string \<Rightarrow> 64 word \<Rightarrow> HANDLE \<times> HANDLE \<Rightarrow> DWORD \<Rightarrow> DWORD
     \<Rightarrow> world \<Rightarrow> bool \<times> (HANDLE \<times> HANDLE) \<times> world" where
  "CreatePipePair env show_ptr name out_read_pipe out buffer_size timeout_ms w =
     (let full = full_name show_ptr (GetCurrentProcessId w) out_read_pipe name in
      case CreateNamedPipeA env full buffer_size timeout_ms w of
        (read_pipe, w1) \<Rightarrow>
          if read_pipe = INVALID_HANDLE_VALUE then (False, out, w1)
          else
            (case CreateFileA env full w1 of
               (write_pipe, w2) \<Rightarrow>
                 if write_pipe = INVALID_HANDLE_VALUE
                 then (False, out, snd (CloseHandle env read_pipe w2))
                 else (True, (read_pipe, write_pipe), w2)))"

section \<open>Reading the events of a run\<close>

text \<open>The events of one successful read of the drain: the read, then the call of the sink.\<close>

definition read_events :: "Pipe \<Rightarrow> byte list \<Rightarrow> event list" where
  "read_events p c =
     EvReadFile (m_stdout_r p) (of_nat (length c)) #
     (case m_print_fn p of None \<Rightarrow> [] | Some f \<Rightarrow> [EvPrint f c])"

text \<open>The three calls an iteration of \<open>Write\<close> makes before it drains.\<close>

definition write_events :: "Pipe \<Rightarrow> size_t \<Rightarrow> DWORD \<Rightarrow> event list" where
  "write_events p len total_written =
     [EvWriteFile (m_stdin_w p) (unat total_written) (ucast len - total_written),
      EvWaitForMultipleObjects [m_event p, hProcess (m_procinfo p)] False (m_timeout_ms p),
      EvGetOverlappedResult (m_stdin_w p) False]"

primrec world_of :: "iteration \<Rightarrow> world" where
  "world_of (Failed w) = w"
| "world_of (Written total_written overlapped w) = w"

text \<open>The states in which the loop of \<open>Write\<close> tests its condition, from a first one on.\<close>

inductive Write_reaches ::
  "env \<Rightarrow> Pipe \<Rightarrow> (nat \<Rightarrow> byte) \<Rightarrow> size_t \<Rightarrow> DWORD \<times> OVERLAPPED \<times> world
     \<Rightarrow> DWORD \<times> OVERLAPPED \<times> world \<Rightarrow> bool"
  for env p data len s where
    start: "Write_reaches env p data len s s"
  | iterate:
      "Write_reaches env p data len s (total_written, overlapped, w) \<Longrightarrow>
       ucast total_written < len \<Longrightarrow>
       Write_iteration env p data len total_written overlapped w =
         Some (Written total_written1 overlapped1 w1) \<Longrightarrow>
       Write_reaches env p data len s (total_written1, overlapped1, w1)"

text \<open>How many bytes the input channel takes from a write of \<open>n\<close> bytes issued in \<open>w\<close>.\<close>

definition transferred :: "env \<Rightarrow> world \<Rightarrow> DWORD \<Rightarrow> nat" where
  "transferred env w n =
     (if r_ok (env (clock w)) \<or> r_error (env (clock w)) = ERROR_IO_PENDING
      then min (r_count (env (clock w))) (unat n) else 0)"

text \<open>A world with the calls of the sink left out of its events.\<close>

fun is_print :: "event \<Rightarrow> bool" where
  "is_print (EvPrint f str) = True"
| "is_print e = False"

definition silent :: "world \<Rightarrow> world" where
  "silent w = w\<lparr>events := filter (\<lambda>e. \<not> is_print e) (events w)\<rparr>"

text \<open>The handles released in a run, and the handles a session still owns.\<close>

fun closed_handles :: "event list \<Rightarrow> HANDLE list" where
  "closed_handles [] = []"
| "closed_handles (EvCloseHandle h # es) = h # closed_handles es"
| "closed_handles (e # es) = closed_handles es"

definition owned :: "Pipe \<Rightarrow> HANDLE list" where
  "owned p =
     filter (\<lambda>h. h \<noteq> NULL) [m_event p, hProcess (m_procinfo p), hThread (m_procinfo p)] @
     filter (\<lambda>h. h \<noteq> INVALID_HANDLE_VALUE)
       [m_stdin_r p, m_stdin_w p, m_stdout_r p, m_stdout_w p]"

section \<open>A sample run\<close>

text \<open>
  A session with every handle valid, an environment in which every call succeeds, the
  input channel takes two bytes of a write, and the child prints two bytes early on; a
  world with nothing delivered yet; and a buffer that holds 1, 2, 3, ...
\<close>

definition steady :: env where
  "steady t = \<lparr> r_ok = True, r_error = 0, r_count = 2, r_wait = 0, r_handle = 0,
                r_child_out = (if t = 1 then [104, 105] else []) \<rparr>"

definition session :: Pipe where
  "session =
     \<lparr> m_procinfo = \<lparr> hProcess = 20, hThread = 24, dwProcessId = 77, dwThreadId = 78 \<rparr>,
       m_stdin_r = 4, m_stdin_w = 8, m_stdout_r = 12, m_stdout_w = 16,
       m_event = 28, m_timeout_ms = 10000, m_print_fn = Some DefaultPrintFunc \<rparr>"

definition boot :: world where
  "boot = \<lparr> clock = 0, process_id = 1234, last_error = 0, child_stdin = [],
            stdout_buf = [], events = [] \<rparr>"

definition ramp :: "nat \<Rightarrow> byte" where
  "ramp i = of_nat (i + 1)"

text \<open>
  Further environments: one in which the first write stays pending and the wait for it
  times out; one in which every call succeeds and the input channel takes whatever is
  requested; one in which the read end of a pair is created and the write end is not.
  And one way a stream may print a pointer: in hexadecimal.
\<close>

definition stalled :: env where
  "stalled = steady (0 := (steady 0)\<lparr>r_ok := False, r_error := ERROR_IO_PENDING\<rparr>,
                     1 := (steady 1)\<lparr>r_wait := WAIT_TIMEOUT\<rparr>)"

definition healthy :: env where
  "healthy t = \<lparr> r_ok = True, r_error = 0, r_count = 4294967295, r_wait = STATUS_WAIT_0,
                 r_handle = 0, r_child_out = [] \<rparr>"

definition half_made :: env where
  "half_made = steady (0 := (steady 0)\<lparr>r_handle := 40\<rparr>,
                       1 := (steady 1)\<lparr>r_ok := False, r_error := 231\<rparr>)"

definition hex_digit :: "nat \<Rightarrow> char" where
  "hex_digit d = ''0123456789ABCDEF'' ! d"

definition show_hex_ptr :: "64 word \<Rightarrow> string" where
  "show_hex_ptr a = show_nat 16 hex_digit (unat a)"

text \<open>
  The state of the loop of \<open>Write\<close> after one iteration of a write of \<open>2^32 + 3\<close> bytes
  in the first environment.
\<close>

definition second_state :: "DWORD \<times> OVERLAPPED \<times> world" where
  "second_state =
     (2, \<lparr>InternalHigh = 2, hEvent = 28\<rparr>,
      \<lparr> clock = 5, process_id = 1234, last_error = 0, child_stdin = [1, 2], stdout_buf = [],
        events = [EvWriteFile 8 0 3, EvWaitForMultipleObjects [28, 20] False 10000,
                  EvGetOverlappedResult 8 False, EvPeekNamedPipe 12, EvReadFile 12 2,
                  EvPrint DefaultPrintFunc [104, 105]] \<rparr>)"

lemmas api_defs = WriteFile_def WaitForMultipleObjects_def WaitForSingleObject_def
  GetOverlappedResult_def CloseHandle_def TerminateProcess_def PeekNamedPipe_def ReadFile_def
  call_print_fn_def after_call_def GetLastError_def SetLastError_def read_size_def
  ERROR_IO_PENDING_def STATUS_WAIT_0_def WAIT_FAILED_def ERROR_SUCCESS_def stdout_capacity_def
  NULL_def INVALID_HANDLE_VALUE_def

lemmas sample_defs = steady_def session_def boot_def ramp_def stalled_def healthy_def
  half_made_def

section \<open>Effects of the calls\<close>

declare ReadOutput_loop.simps [simp del]

lemma after_call_fields [simp]:
  "clock (after_call env e w) = Suc (clock w)"
  "events (after_call env e w) = events w @ [e]"
  "child_stdin (after_call env e w) = child_stdin w"
  "process_id (after_call env e w) = process_id w"
  "last_error (after_call env e w) = last_error w"
  by (simp_all add: after_call_def)

lemma call_print_fn_fields [simp]:
  "clock (call_print_fn f c w) = clock w"
  "events (call_print_fn f c w) = events w @ [EvPrint f c]"
  "child_stdin (call_print_fn f c w) = child_stdin w"
  "stdout_buf (call_print_fn f c w) = stdout_buf w"
  by (simp_all add: call_print_fn_def)

lemma ReadFile_stdin:
  "ReadFile env h n w = Some (ok, chunk, w1) \<Longrightarrow> child_stdin w1 = child_stdin w"
  by (auto simp: ReadFile_def Let_def split: if_splits)

lemma ReadOutput_loop_stdin:
  "ReadOutput_loop env p available total_read w = Some (n, w') \<Longrightarrow> child_stdin w' = child_stdin w"
proof (induction env p available total_read w rule: ReadOutput_loop.induct)
  case (1 env p available total_read w)
  show ?case
  proof (cases "total_read < available")
    case False
    with "1.prems" show ?thesis by (simp add: ReadOutput_loop.simps)
  next
    case True
    show ?thesis
    proof (cases "ReadFile env (m_stdout_r p) (read_size available total_read) w")
      case None
      with True "1.prems" show ?thesis by (simp add: ReadOutput_loop.simps)
    next
      case (Some res)
      obtain ok chunk w1 where res: "res = (ok, chunk, w1)" by (cases res)
      note rd = Some [unfolded res]
      show ?thesis
      proof (cases ok)
        case False
        with True rd "1.prems" ReadFile_stdin [OF rd] show ?thesis
          by (simp add: ReadOutput_loop.simps)
      next
        case ok: True
        from True rd ok "1.prems"
        have rec: "ReadOutput_loop env p available (total_read + of_nat (length chunk))
                 (case m_print_fn p of None \<Rightarrow> w1 | Some f \<Rightarrow> call_print_fn f chunk w1) = Some (n, w')"
          by (simp add: ReadOutput_loop.simps)
        have "child_stdin w' = child_stdin (case m_print_fn p of None \<Rightarrow> w1 | Some f \<Rightarrow> call_print_fn f chunk w1)"
          using "1.IH" [OF True rd refl refl _ rec] ok by simp
        also have "\<dots> = child_stdin w1" by (simp split: option.splits)
        also have "\<dots> = child_stdin w" by (rule ReadFile_stdin [OF rd])
        finally show ?thesis .
      qed
    qed
  qed
qed

lemma ReadOutput_stdin:
  "ReadOutput env p w = Some (n, w') \<Longrightarrow> child_stdin w' = child_stdin w"
  by (auto simp: ReadOutput_def PeekNamedPipe_def Let_def
      split: if_splits option.splits dest!: ReadOutput_loop_stdin)

lemma transferred_le: "transferred env w n \<le> unat n"
  by (simp add: transferred_def)

lemma WriteFile_stdin:
  assumes "WriteFile env h data off n ov w = (ok, ov1, w1)"
  shows "child_stdin w1 = child_stdin w @ map data [off ..< off + transferred env w n]"
    and "ok \<or> GetLastError w1 = ERROR_IO_PENDING \<Longrightarrow> InternalHigh ov1 = of_nat (transferred env w n)"
  using assms
  by (auto simp: WriteFile_def Let_def GetLastError_def transferred_def split: if_splits) 

lemma WaitForMultipleObjects_stdin:
  "WaitForMultipleObjects env hs b t w = (res, w1) \<Longrightarrow> child_stdin w1 = child_stdin w"
  by (auto simp: WaitForMultipleObjects_def Let_def split: if_splits)

lemma GetOverlappedResult_stdin:
  assumes "GetOverlappedResult env h ov b w = (ok, written, w1)"
  shows "child_stdin w1 = child_stdin w" and "ok \<Longrightarrow> written = ucast (InternalHigh ov)"
  using assms
  by (auto simp: GetOverlappedResult_def Let_def split: if_splits)

lemma ucast_of_nat_DWORD: "(ucast (of_nat k :: 64 word) :: DWORD) = of_nat k"
  by (simp add: word_eq_iff_unsigned [where ?'a = nat] unsigned_ucast_eq unsigned_of_nat take_bit_of_nat min_def)

lemma SetLastError_stdin [simp]: "child_stdin (SetLastError e w) = child_stdin w"
  by (simp add: SetLastError_def)

lemma unat_add_of_nat_DWORD:
  assumes "unat (x :: DWORD) + k \<le> unat (y :: DWORD)"
  shows "unat (x + of_nat k) = unat x + k"
proof -
  have "unat y < 2 ^ 32" using unsigned_less [of y] by simp
  with assms have "unat x + k < 2 ^ LENGTH(32)" by simp
  then show ?thesis by (simp add: unat_word_ariths unat_of_nat)
qed

lemma Write_iteration_stdin:
  assumes it: "Write_iteration env p data len tw ov w = Some res"
    and inv: "unat tw \<le> unat (ucast len :: DWORD)"
  shows "case res of
           Failed w' \<Rightarrow>
             (\<exists>k. unat tw + k \<le> unat (ucast len :: DWORD) \<and>
                  child_stdin w' = child_stdin w @ map data [unat tw ..< unat tw + k])
         | Written tw' ov' w' \<Rightarrow>
             unat tw \<le> unat tw' \<and> unat tw' \<le> unat (ucast len :: DWORD) \<and>
             child_stdin w' = child_stdin w @ map data [unat tw ..< unat tw']"
proof -
  define req :: DWORD where "req = ucast len - tw"
  define k where "k = transferred env w req"
  have "unat req = unat (ucast len :: DWORD) - unat tw"
    unfolding req_def using inv by (simp add: unat_sub word_le_nat_alt)
  with transferred_le [of env w req] inv
  have k: "unat tw + k \<le> unat (ucast len :: DWORD)"
    by (simp add: k_def)
  obtain ok ov1 w1 where wf:
    "WriteFile env (m_stdin_w p) data (unat tw) (ucast len - tw) ov w = (ok, ov1, w1)"
    by (cases "WriteFile env (m_stdin_w p) data (unat tw) (ucast len - tw) ov w")
  note w1 = WriteFile_stdin [OF wf, folded req_def k_def]
  show ?thesis
  proof (cases "\<not> ok \<and> GetLastError w1 \<noteq> ERROR_IO_PENDING")
    case True
    with it wf have "res = Failed w1"
      by (simp add: Write_iteration_def)
    with w1(1) k show ?thesis by auto
  next
    case pending: False
    define w2 where "w2 = (if \<not> ok then SetLastError ERROR_SUCCESS w1 else w1)"
    have w2: "child_stdin w2 = child_stdin w1" by (simp add: w2_def)
    obtain r3 w3 where wt:
      "WaitForMultipleObjects env [m_event p, hProcess (m_procinfo p)] False (m_timeout_ms p) w2
         = (r3, w3)"
      by (cases "WaitForMultipleObjects env [m_event p, hProcess (m_procinfo p)] False
                   (m_timeout_ms p) w2")
    note w3 = WaitForMultipleObjects_stdin [OF wt]
    show ?thesis
    proof (cases "r3 \<noteq> STATUS_WAIT_0")
      case True
      with it wf pending wt have "res = Failed w3"
        by (simp add: Write_iteration_def Let_def w2_def)
      with w1(1) w2 w3 k show ?thesis by auto
    next
      case waited: False
      obtain ok2 written w4 where gor:
        "GetOverlappedResult env (m_stdin_w p) ov1 False w3 = (ok2, written, w4)"
        by (cases "GetOverlappedResult env (m_stdin_w p) ov1 False w3")
      note w4 = GetOverlappedResult_stdin [OF gor]
      show ?thesis
      proof (cases ok2)
        case False
        with it wf pending wt waited gor have "res = Failed w4"
          by (simp add: Write_iteration_def Let_def w2_def)
        with w1(1) w2 w3 w4(1) k show ?thesis by auto
      next
        case True
        from pending have "ok \<or> GetLastError w1 = ERROR_IO_PENDING" by blast
        from w4(2) [OF True] w1(2) [OF this]
        have written: "written = of_nat k"
          by (simp add: ucast_of_nat_DWORD)
        from it wf pending wt waited gor True
        obtain n w5 where rd: "ReadOutput env p w4 = Some (n, w5)"
          and res: "res = Written (tw + written) ov1 w5"
          by (auto simp: Write_iteration_def Let_def w2_def split: option.splits)
        have "unat (tw + written) = unat tw + k"
          unfolding written by (rule unat_add_of_nat_DWORD [OF k])
        with res k w1(1) w2 w3 w4(1) ReadOutput_stdin [OF rd] show ?thesis by simp
      qed
    qed
  qed
qed

lemma map_upt_append:
  "i \<le> j \<Longrightarrow> j \<le> k \<Longrightarrow> map f [i ..< j] @ map f [j ..< k] = map f [i ..< k]"
  by (metis le_Suc_ex map_append upt_add_eq_append)

lemma Write_loop_stdin:
  assumes "Write_loop fuel env p data len tw ov w = Some (ok, w')"
    and "unat tw \<le> unat (ucast len :: DWORD)"
  shows "\<exists>n. unat tw \<le> n \<and> n \<le> unat (ucast len :: DWORD) \<and> (ok \<longrightarrow> n = unat len) \<and>
             child_stdin w' = child_stdin w @ map data [unat tw ..< n]"
  using assms
proof (induction fuel arbitrary: tw ov w)
  case 0
  then have out: "\<not> ucast tw < len" and res: "ok" "w' = w"
    by (auto split: if_splits)
  have "unat (ucast len :: DWORD) \<le> unat len"
    by (simp add: unsigned_ucast_eq take_bit_eq_mod)
  with out "0.prems"(2) have "unat tw = unat len"
    by (simp add: word_less_nat_alt unat_ucast_DWORD)
  with res "0.prems"(2) show ?case by auto
next
  case (Suc fuel)
  show ?case
  proof (cases "ucast tw < len")
    case False
    with Suc.prems(1) have res: "ok" "w' = w" by auto
    have "unat (ucast len :: DWORD) \<le> unat len"
      by (simp add: unsigned_ucast_eq take_bit_eq_mod)
    with False Suc.prems(2) have "unat tw = unat len"
      by (simp add: word_less_nat_alt unat_ucast_DWORD)
    with res Suc.prems(2) show ?thesis by auto
  next
    case True
    with Suc.prems(1) obtain res where it: "Write_iteration env p data len tw ov w = Some res"
      by (auto split: option.splits)
    note st = Write_iteration_stdin [OF it Suc.prems(2)]
    show ?thesis
    proof (cases res)
      case (Failed w1)
      with True it Suc.prems(1) have "\<not> ok" "w' = w1" by auto
      with st Failed obtain k where k: "unat tw + k \<le> unat (ucast len :: DWORD)"
        "child_stdin w' = child_stdin w @ map data [unat tw ..< unat tw + k]"
        by auto
      with \<open>\<not> ok\<close> show ?thesis by (intro exI [of _ "unat tw + k"]) simp
    next
      case (Written tw1 ov1 w1)
      with True it Suc.prems(1) have rec: "Write_loop fuel env p data len tw1 ov1 w1 = Some (ok, w')"
        by simp
      from st Written have st': "unat tw \<le> unat tw1" "unat tw1 \<le> unat (ucast len :: DWORD)"
        "child_stdin w1 = child_stdin w @ map data [unat tw ..< unat tw1]"
        by auto
      from Suc.IH [OF rec st'(2)] obtain n where n: "unat tw1 \<le> n" "n \<le> unat (ucast len :: DWORD)"
        "ok \<longrightarrow> n = unat len" "child_stdin w' = child_stdin w1 @ map data [unat tw1 ..< n]"
        by blast
      have "child_stdin w' = child_stdin w @ map data [unat tw ..< n]"
        using n(4) st'(3) map_upt_append [OF st'(1) n(1), of data] by simp
      with n st'(1) show ?thesis by (intro exI [of _ n]) auto
    qed
  qed
qed


section \<open>The drain pass\<close>

lemma after_call_stdout_le: "length (stdout_buf (after_call env e w)) \<le> stdout_capacity"
  by (simp add: after_call_def)

lemma after_call_stdout:
  "length (stdout_buf w) \<le> stdout_capacity \<Longrightarrow>
   stdout_buf (after_call env e w) =
     stdout_buf w @ take (stdout_capacity - length (stdout_buf w)) (r_child_out (env (clock w)))"
  by (simp add: after_call_def)

lemma ReadFile_ok:
  assumes ok: "r_ok (env (clock w))" and n: "0 < unat n" "unat n \<le> length (stdout_buf w)"
    and cap: "length (stdout_buf w) \<le> stdout_capacity"
  shows "\<exists>w1 x. ReadFile env h n w = Some (True, take (unat n) (stdout_buf w), w1) \<and>
           stdout_buf w1 = drop (unat n) (stdout_buf w) @ x \<and>
           length (stdout_buf w1) \<le> stdout_capacity \<and>
           events w1 = events w @ [EvReadFile h n] \<and> clock w1 = Suc (clock w) \<and>
           child_stdin w1 = child_stdin w"
proof -
  define x where "x = take (stdout_capacity - length (stdout_buf w)) (r_child_out (env (clock w)))"
  define a where "a = after_call env (EvReadFile h n) w"
  have buf: "stdout_buf a = stdout_buf w @ x"
    unfolding a_def x_def by (rule after_call_stdout [OF cap])
  have le: "length (stdout_buf a) \<le> stdout_capacity"
    unfolding a_def by (rule after_call_stdout_le)
  from n have ne: "stdout_buf w \<noteq> []" "n \<noteq> 0" by auto
  have rd: "ReadFile env h n w =
      Some (True, take (unat n) (stdout_buf a), a\<lparr>stdout_buf := drop (unat n) (stdout_buf a)\<rparr>)"
    using ok ne buf by (simp add: ReadFile_def Let_def a_def)
  show ?thesis
    using rd buf le n by (intro exI [of _ "a\<lparr>stdout_buf := drop (unat n) (stdout_buf a)\<rparr>"] exI [of _ x])
      (simp add: a_def)
qed

lemma ReadFile_failed:
  assumes ok: "\<not> r_ok (env (clock w))" and cap: "length (stdout_buf w) \<le> stdout_capacity"
  shows "\<exists>w1 x. ReadFile env h n w = Some (False, [], w1) \<and>
           stdout_buf w1 = stdout_buf w @ x \<and>
           length (stdout_buf w1) \<le> stdout_capacity \<and>
           events w1 = events w @ [EvReadFile h n] \<and> clock w1 = Suc (clock w) \<and>
           child_stdin w1 = child_stdin w"
  using ok after_call_stdout [OF cap, of env "EvReadFile h n"]
    after_call_stdout_le [of env "EvReadFile h n" w]
  by (simp add: ReadFile_def Let_def)

lemma print_step:
  "events (case m_print_fn p of None \<Rightarrow> w1 | Some f \<Rightarrow> call_print_fn f chunk w1) =
     events w1 @ (case m_print_fn p of None \<Rightarrow> [] | Some f \<Rightarrow> [EvPrint f chunk])"
  "clock (case m_print_fn p of None \<Rightarrow> w1 | Some f \<Rightarrow> call_print_fn f chunk w1) = clock w1"
  "stdout_buf (case m_print_fn p of None \<Rightarrow> w1 | Some f \<Rightarrow> call_print_fn f chunk w1) = stdout_buf w1"
  "child_stdin (case m_print_fn p of None \<Rightarrow> w1 | Some f \<Rightarrow> call_print_fn f chunk w1) = child_stdin w1"
  by (simp_all split: option.splits)

lemma ReadOutput_loop_spec:
  assumes "unat total_read \<le> unat available"
    and "unat available - unat total_read \<le> length (stdout_buf w)"
    and "length (stdout_buf w) \<le> stdout_capacity"
  shows "\<exists>n w' chunks tail extra.
      ReadOutput_loop env p available total_read w = Some (n, w') \<and>
      unat total_read \<le> unat n \<and> unat n \<le> unat available \<and>
      concat chunks = take (unat n - unat total_read) (stdout_buf w) \<and>
      (\<forall>c\<in>set chunks. 0 < length c \<and> length c \<le> 256) \<and>
      stdout_buf w' = drop (unat n - unat total_read) (stdout_buf w) @ extra \<and>
      length (stdout_buf w') \<le> stdout_capacity \<and>
      events w' = events w @ concat (map (read_events p) chunks) @ tail \<and>
      clock w' = clock w + length chunks + length tail \<and>
      child_stdin w' = child_stdin w \<and>
      (tail = [] \<and> n = available \<or>
       (\<exists>k. tail = [EvReadFile (m_stdout_r p) k]) \<and> \<not> r_ok (env (clock w + length chunks)))"
  using assms
proof (induction env p available total_read w rule: ReadOutput_loop.induct)
  case (1 env p available total_read w)
  let ?h = "m_stdout_r p"
  let ?rs = "read_size available total_read"
  show ?case
  proof (cases "total_read < available")
    case False
    with "1.prems"(1) have eq: "total_read = available"
      by (simp add: word_less_nat_alt word_eq_iff_unsigned [where ?'a = nat])
    have "ReadOutput_loop env p available total_read w = Some (total_read, w)"
      using False by (simp add: ReadOutput_loop.simps)
    with eq "1.prems"(3) show ?thesis
      by (intro exI [of _ total_read] exI [of _ w] exI [of _ "[]"]) simp
  next
    case lt: True
    note rs = read_size_bounds [OF lt]
    from rs(2) "1.prems"(2) have rs_le: "unat ?rs \<le> length (stdout_buf w)" by simp
    show ?thesis
    proof (cases "r_ok (env (clock w))")
      case False
      from ReadFile_failed [where env = env and w = w and h = ?h and n = ?rs, OF False "1.prems"(3)]
      obtain w1 x where rd: "ReadFile env ?h ?rs w = Some (False, [], w1)"
        and w1: "stdout_buf w1 = stdout_buf w @ x" "length (stdout_buf w1) \<le> stdout_capacity"
          "events w1 = events w @ [EvReadFile ?h ?rs]" "clock w1 = Suc (clock w)"
          "child_stdin w1 = child_stdin w"
        by blast
      have "ReadOutput_loop env p available total_read w = Some (total_read, w1)"
        using lt rd by (simp add: ReadOutput_loop.simps)
      with w1 False "1.prems"(1) show ?thesis
        by (intro exI [of _ total_read] exI [of _ w1] exI [of _ "[]"]
            exI [of _ "[EvReadFile ?h ?rs]"] exI [of _ x]) simp
    next
      case ok: True
      define chunk where "chunk = take (unat ?rs) (stdout_buf w)"
      from ReadFile_ok [where env = env and w = w and h = ?h and n = ?rs, OF ok rs(1) rs_le "1.prems"(3)]
      obtain w1 x where rd: "ReadFile env ?h ?rs w = Some (True, chunk, w1)"
        and w1: "stdout_buf w1 = drop (unat ?rs) (stdout_buf w) @ x"
          "length (stdout_buf w1) \<le> stdout_capacity"
          "events w1 = events w @ [EvReadFile ?h ?rs]" "clock w1 = Suc (clock w)"
          "child_stdin w1 = child_stdin w"
        unfolding chunk_def by blast
      have len: "length chunk = unat ?rs"
        using rs_le by (simp add: chunk_def)
      define t1 where "t1 = total_read + of_nat (length chunk)"
      define w2 where "w2 = (case m_print_fn p of None \<Rightarrow> w1 | Some f \<Rightarrow> call_print_fn f chunk w1)"
      note pr = read_progress [OF lt rd]
      have t1: "unat t1 = unat total_read + unat ?rs"
        using pr(1) len by (simp add: t1_def)
      have w2: "stdout_buf w2 = drop (unat ?rs) (stdout_buf w) @ x"
        "length (stdout_buf w2) \<le> stdout_capacity"
        "events w2 = events w @ read_events p chunk"
        "clock w2 = Suc (clock w)" "child_stdin w2 = child_stdin w"
        using w1 by (simp_all add: w2_def print_step read_events_def len)
      have step: "ReadOutput_loop env p available total_read w = ReadOutput_loop env p available t1 w2"
        using lt rd by (simp add: ReadOutput_loop.simps [of env p available total_read] t1_def w2_def)
      have p1: "unat t1 \<le> unat available" using pr(3) len t1 by simp
      have p2: "unat available - unat t1 \<le> length (stdout_buf w2)"
        using "1.prems"(2) t1 w2(1) by simp
      from "1.IH" [OF lt rd refl refl _ p1 [unfolded t1_def] p2 [unfolded t1_def w2_def]
          w2(2) [unfolded w2_def], folded t1_def w2_def]
      obtain n w' chunks tail extra where
        res: "ReadOutput_loop env p available t1 w2 = Some (n, w')"
        and n: "unat t1 \<le> unat n" "unat n \<le> unat available"
        and cc: "concat chunks = take (unat n - unat t1) (stdout_buf w2)"
        and cs: "\<forall>c\<in>set chunks. 0 < length c \<and> length c \<le> 256"
        and buf: "stdout_buf w' = drop (unat n - unat t1) (stdout_buf w2) @ extra"
        and cap: "length (stdout_buf w') \<le> stdout_capacity"
        and ev: "events w' = events w2 @ concat (map (read_events p) chunks) @ tail"
        and ck: "clock w' = clock w2 + length chunks + length tail"
        and si: "child_stdin w' = child_stdin w2"
        and fin: "tail = [] \<and> n = available \<or>
           (\<exists>k. tail = [EvReadFile ?h k]) \<and> \<not> r_ok (env (clock w2 + length chunks))"
        by auto
      define m where "m = unat n - unat t1"
      have m: "unat n - unat total_read = unat ?rs + m"
        using n(1) t1 by (simp add: m_def)
      have m_le: "m \<le> length (drop (unat ?rs) (stdout_buf w))"
        using n(2) "1.prems"(2) t1 by (simp add: m_def)
      have c1: "concat (chunk # chunks) = take (unat n - unat total_read) (stdout_buf w)"
        using cc m_le unfolding m w2(1) m_def [symmetric] chunk_def
        by (simp add: take_add)
      have c2: "\<forall>c\<in>set (chunk # chunks). 0 < length c \<and> length c \<le> 256"
        using cs len rs(1) rs(3) by auto
      have c3: "stdout_buf w' = drop (unat n - unat total_read) (stdout_buf w) @ (x @ extra)"
        using buf m_le unfolding m w2(1) m_def [symmetric]
        by (simp add: add.commute)
      have c4: "events w' = events w @ concat (map (read_events p) (chunk # chunks)) @ tail"
        using ev w2(3) by simp
      have c5: "clock w' = clock w + length (chunk # chunks) + length tail"
        using ck w2(4) by simp
      have c6: "tail = [] \<and> n = available \<or>
           (\<exists>k. tail = [EvReadFile ?h k]) \<and> \<not> r_ok (env (clock w + length (chunk # chunks)))"
        using fin w2(4) by simp
      have c7: "unat total_read \<le> unat n" using n(1) t1 by simp
      show ?thesis
        unfolding step res
        using c1 c2 c3 c4 c5 c6 c7 n(2) cap si w2(5)
        by (intro exI [of _ n] exI [of _ w'] exI [of _ "chunk # chunks"] exI [of _ tail]
            exI [of _ "x @ extra"]) (simp del: concat.simps set_simps list.map)
    qed
  qed
qed

lemma unat_of_nat_capacity:
  "k \<le> stdout_capacity \<Longrightarrow> unat (of_nat k :: DWORD) = k"
  by (simp add: unat_of_nat stdout_capacity_def)

lemma ReadOutput_spec:
  fixes env p w
  defines "B \<equiv> take stdout_capacity (stdout_buf w @ r_child_out (env (clock w)))"
  shows "\<exists>n w' chunks tail extra.
      ReadOutput env p w = Some (n, w') \<and>
      unat n \<le> length B \<and>
      concat chunks = take (unat n) B \<and>
      (\<forall>c\<in>set chunks. 0 < length c \<and> length c \<le> 256) \<and>
      stdout_buf w' = drop (unat n) B @ extra \<and>
      events w' = events w @ EvPeekNamedPipe (m_stdout_r p) #
                    concat (map (read_events p) chunks) @ tail \<and>
      clock w' = Suc (clock w) + length chunks + length tail \<and>
      child_stdin w' = child_stdin w \<and>
      (if r_ok (env (clock w))
       then tail = [] \<and> unat n = length B \<or>
            (\<exists>k. tail = [EvReadFile (m_stdout_r p) k]) \<and>
            \<not> r_ok (env (Suc (clock w) + length chunks))
       else n = 0 \<and> chunks = [] \<and> tail = [])"
proof -
  let ?h = "m_stdout_r p"
  define w1 where "w1 = after_call env (EvPeekNamedPipe ?h) w"
  have B: "stdout_buf w1 = B" by (simp add: w1_def B_def after_call_def)
  have cap: "length B \<le> stdout_capacity" by (simp add: B_def)
  show ?thesis
  proof (cases "r_ok (env (clock w))")
    case False
    then have "ReadOutput env p w = Some (0, w1\<lparr>last_error := r_error (env (clock w))\<rparr>)"
      by (simp add: ReadOutput_def PeekNamedPipe_def Let_def w1_def)
    with False B show ?thesis
      by (intro exI [of _ 0] exI [of _ "w1\<lparr>last_error := r_error (env (clock w))\<rparr>"]
          exI [of _ "[]"]) (simp add: w1_def)
  next
    case True
    define available :: DWORD where "available = of_nat (length B)"
    have av: "unat available = length B"
      unfolding available_def by (rule unat_of_nat_capacity [OF cap])
    have peek: "PeekNamedPipe env ?h w = (True, available, w1)"
      using True B by (simp add: PeekNamedPipe_def Let_def w1_def available_def)
    from ReadOutput_loop_spec [where total_read = 0 and available = available and w = w1
        and env = env and p = p] av B cap
    obtain n w' chunks tail extra where
      res: "ReadOutput_loop env p available 0 w1 = Some (n, w')"
      and n: "unat n \<le> unat available"
      and cc: "concat chunks = take (unat n) B"
      and cs: "\<forall>c\<in>set chunks. 0 < length c \<and> length c \<le> 256"
      and buf: "stdout_buf w' = drop (unat n) B @ extra"
      and ev: "events w' = events w1 @ concat (map (read_events p) chunks) @ tail"
      and ck: "clock w' = clock w1 + length chunks + length tail"
      and si: "child_stdin w' = child_stdin w1"
      and fin: "tail = [] \<and> n = available \<or>
           (\<exists>k. tail = [EvReadFile ?h k]) \<and> \<not> r_ok (env (clock w1 + length chunks))"
      by auto
    have ro: "ReadOutput env p w = Some (ucast n, w')"
      using peek res by (simp add: ReadOutput_def)
    have un: "unat (ucast n :: size_t) = unat n" by (rule unat_ucast_DWORD)
    have fin': "tail = [] \<and> unat n = length B \<or>
           (\<exists>k. tail = [EvReadFile ?h k]) \<and> \<not> r_ok (env (Suc (clock w) + length chunks))"
      using fin av by (auto simp: w1_def)
    show ?thesis
      unfolding ro un
      using True n av cc cs buf ev ck si fin'
      by (intro exI [of _ "ucast n"] exI [of _ w'] exI [of _ chunks] exI [of _ tail]
          exI [of _ extra]) (simp add: w1_def un)
  qed
qed

lemma ReadOutput_returns: "\<exists>n w'. ReadOutput env p w = Some (n, w')"
  using ReadOutput_spec [of env p w] by blast

lemma ReadOutput_events:
  assumes "ReadOutput env p w = Some (n, w')"
  shows "\<exists>chunks tail.
     events w' = events w @ EvPeekNamedPipe (m_stdout_r p) #
                   concat (map (read_events p) chunks) @ tail \<and>
     (tail = [] \<or> (\<exists>k. tail = [EvReadFile (m_stdout_r p) k]))"
proof -
  from ReadOutput_spec [of env p w]
  obtain n' w'' chunks tail where a: "ReadOutput env p w = Some (n', w'')"
    "events w'' = events w @ EvPeekNamedPipe (m_stdout_r p) #
                   concat (map (read_events p) chunks) @ tail"
    "if r_ok (env (clock w))
       then tail = [] \<and> unat n' = length (take stdout_capacity
              (stdout_buf w @ r_child_out (env (clock w)))) \<or>
            (\<exists>k. tail = [EvReadFile (m_stdout_r p) k]) \<and>
            \<not> r_ok (env (Suc (clock w) + length chunks))
       else n' = 0 \<and> chunks = [] \<and> tail = []"
    by blast
  from a(3) have "tail = [] \<or> (\<exists>k. tail = [EvReadFile (m_stdout_r p) k])"
    by (cases "r_ok (env (clock w))") auto
  moreover from a(1) assms have "w'' = w'" by simp
  ultimately show ?thesis using a(2) by blast
qed

section \<open>One iteration of the write loop\<close>

lemma Write_iteration_write_failed:
  assumes "\<not> r_ok (env (clock w))" and "r_error (env (clock w)) \<noteq> ERROR_IO_PENDING"
  shows "\<exists>w'. Write_iteration env p data len tw ov w = Some (Failed w') \<and>
           events w' = events w @ take 1 (write_events p len tw)"
  using assms
  by (simp add: Write_iteration_def WriteFile_def Let_def GetLastError_def write_events_def)

lemma Write_iteration_wait_failed:
  assumes "r_ok (env (clock w)) \<or> r_error (env (clock w)) = ERROR_IO_PENDING"
    and "r_wait (env (Suc (clock w))) \<noteq> STATUS_WAIT_0"
  shows "\<exists>w'. Write_iteration env p data len tw ov w = Some (Failed w') \<and>
           events w' = events w @ take 2 (write_events p len tw)"
  using assms
  by (auto simp: Write_iteration_def WriteFile_def WaitForMultipleObjects_def Let_def
      GetLastError_def SetLastError_def write_events_def)

lemma Write_iteration_result_failed:
  assumes "r_ok (env (clock w)) \<or> r_error (env (clock w)) = ERROR_IO_PENDING"
    and "r_wait (env (Suc (clock w))) = STATUS_WAIT_0"
    and "\<not> r_ok (env (Suc (Suc (clock w))))"
  shows "\<exists>w'. Write_iteration env p data len tw ov w = Some (Failed w') \<and>
           events w' = events w @ write_events p len tw"
  using assms
  by (auto simp: Write_iteration_def WriteFile_def WaitForMultipleObjects_def
      GetOverlappedResult_def Let_def GetLastError_def SetLastError_def write_events_def)

lemma Write_iteration_written:
  assumes "r_ok (env (clock w)) \<or> r_error (env (clock w)) = ERROR_IO_PENDING"
    and "r_wait (env (Suc (clock w))) = STATUS_WAIT_0"
    and "r_ok (env (Suc (Suc (clock w))))"
  shows "\<exists>ov' w4 n w'.
           Write_iteration env p data len tw ov w =
             Some (Written (tw + of_nat (transferred env w (ucast len - tw))) ov' w') \<and>
           events w4 = events w @ write_events p len tw \<and> clock w4 = clock w + 3 \<and>
           ReadOutput env p w4 = Some (n, w')"
proof -
  obtain ok ov1 w1 where wf:
    "WriteFile env (m_stdin_w p) data (unat tw) (ucast len - tw) ov w = (ok, ov1, w1)"
    by (cases "WriteFile env (m_stdin_w p) data (unat tw) (ucast len - tw) ov w")
  define w2 where "w2 = (if \<not> ok then SetLastError ERROR_SUCCESS w1 else w1)"
  obtain r3 w3 where wt:
    "WaitForMultipleObjects env [m_event p, hProcess (m_procinfo p)] False (m_timeout_ms p) w2
       = (r3, w3)"
    by (cases "WaitForMultipleObjects env [m_event p, hProcess (m_procinfo p)] False
                 (m_timeout_ms p) w2")
  obtain ok2 written w4 where gor:
    "GetOverlappedResult env (m_stdin_w p) ov1 False w3 = (ok2, written, w4)"
    by (cases "GetOverlappedResult env (m_stdin_w p) ov1 False w3")
  obtain n w' where rd: "ReadOutput env p w4 = Some (n, w')"
    using ReadOutput_returns by blast
  have a: "\<not> (\<not> ok \<and> GetLastError w1 \<noteq> ERROR_IO_PENDING)"
    "events w1 = events w @ take 1 (write_events p len tw)" "clock w1 = Suc (clock w)"
    using wf assms(1)
    by (auto simp: WriteFile_def Let_def GetLastError_def write_events_def split: if_splits)
  have b: "events w2 = events w1" "clock w2 = clock w1"
    by (simp_all add: w2_def SetLastError_def)
  have c: "r3 = STATUS_WAIT_0" "events w3 = events w @ take 2 (write_events p len tw)"
    "clock w3 = Suc (Suc (clock w))"
    using wt assms(2) a(2,3) b
    by (auto simp: WaitForMultipleObjects_def Let_def write_events_def split: if_splits)
  have d: "ok2" "events w4 = events w @ write_events p len tw" "clock w4 = clock w + 3"
    using gor assms(3) c(2,3)
    by (auto simp: GetOverlappedResult_def Let_def write_events_def split: if_splits)
  from a(1) have "ok \<or> GetLastError w1 = ERROR_IO_PENDING" by blast
  from GetOverlappedResult_stdin(2) [OF gor d(1)] WriteFile_stdin(2) [OF wf this]
  have "written = of_nat (transferred env w (ucast len - tw))"
    by (simp add: ucast_of_nat_DWORD)
  moreover have "Write_iteration env p data len tw ov w = Some (Written (tw + written) ov1 w')"
    using wf wt gor rd a(1) c(1) d(1)
    by (simp add: Write_iteration_def Let_def w2_def)
  ultimately show ?thesis using d rd by blast
qed

lemma Write_iteration_first_event:
  "\<exists>it rest. Write_iteration env p data len tw ov w = Some it \<and>
     events (world_of it) = events w @
       EvWriteFile (m_stdin_w p) (unat tw) (ucast len - tw) # rest"
proof (cases "r_ok (env (clock w)) \<or> r_error (env (clock w)) = ERROR_IO_PENDING")
  case False
  with Write_iteration_write_failed [of env w p data len tw ov]
  obtain w' where "Write_iteration env p data len tw ov w = Some (Failed w')"
    "events w' = events w @ take 1 (write_events p len tw)"
    by blast
  then show ?thesis by (intro exI [of _ "Failed w'"] exI [of _ "[]"]) (simp add: write_events_def)
next
  case issued: True
  show ?thesis
  proof (cases "r_wait (env (Suc (clock w))) = STATUS_WAIT_0")
    case False
    with issued Write_iteration_wait_failed [of env w p data len tw ov]
    obtain w' where "Write_iteration env p data len tw ov w = Some (Failed w')"
      "events w' = events w @ take 2 (write_events p len tw)"
      by blast
    then show ?thesis
      by (intro exI [of _ "Failed w'"] exI [of _ "tl (take 2 (write_events p len tw))"])
        (simp add: write_events_def)
  next
    case waited: True
    show ?thesis
    proof (cases "r_ok (env (Suc (Suc (clock w))))")
      case False
      with issued waited Write_iteration_result_failed [of env w p data len tw ov]
      obtain w' where "Write_iteration env p data len tw ov w = Some (Failed w')"
        "events w' = events w @ write_events p len tw"
        by blast
      then show ?thesis
        by (intro exI [of _ "Failed w'"] exI [of _ "tl (write_events p len tw)"])
          (simp add: write_events_def)
    next
      case True
      with issued waited Write_iteration_written [of env w p data len tw ov]
      obtain ov' w4 n w' where a: "Write_iteration env p data len tw ov w =
             Some (Written (tw + of_nat (transferred env w (ucast len - tw))) ov' w')"
        "events w4 = events w @ write_events p len tw" "ReadOutput env p w4 = Some (n, w')"
        by blast
      from ReadOutput_events [OF a(3)] obtain more where "events w' = events w4 @ more"
        by auto
      with a(1,2) show ?thesis
        by (intro exI [of _ "Written (tw + of_nat (transferred env w (ucast len - tw))) ov' w'"]
            exI [of _ "tl (write_events p len tw) @ more"]) (simp add: write_events_def)
    qed
  qed
qed

lemma Write_iteration_second_event:
  assumes "r_ok (env (clock w)) \<or> r_error (env (clock w)) = ERROR_IO_PENDING"
  shows "\<exists>it rest. Write_iteration env p data len tw ov w = Some it \<and>
     events (world_of it) = events w @
       EvWriteFile (m_stdin_w p) (unat tw) (ucast len - tw) #
       EvWaitForMultipleObjects [m_event p, hProcess (m_procinfo p)] False (m_timeout_ms p) # rest"
proof (cases "r_wait (env (Suc (clock w))) = STATUS_WAIT_0")
  case False
  with assms Write_iteration_wait_failed [of env w p data len tw ov]
  obtain w' where "Write_iteration env p data len tw ov w = Some (Failed w')"
    "events w' = events w @ take 2 (write_events p len tw)"
    by blast
  then show ?thesis
    by (intro exI [of _ "Failed w'"] exI [of _ "[]"]) (simp add: write_events_def)
next
  case waited: True
  show ?thesis
  proof (cases "r_ok (env (Suc (Suc (clock w))))")
    case False
    with assms waited Write_iteration_result_failed [of env w p data len tw ov]
    obtain w' where "Write_iteration env p data len tw ov w = Some (Failed w')"
      "events w' = events w @ write_events p len tw"
      by blast
    then show ?thesis
      by (intro exI [of _ "Failed w'"] exI [of _ "[EvGetOverlappedResult (m_stdin_w p) False]"])
        (simp add: write_events_def)
  next
    case True
    with assms waited Write_iteration_written [of env w p data len tw ov]
    obtain ov' w4 n w' where a: "Write_iteration env p data len tw ov w =
           Some (Written (tw + of_nat (transferred env w (ucast len - tw))) ov' w')"
      "events w4 = events w @ write_events p len tw" "ReadOutput env p w4 = Some (n, w')"
      by blast
    from ReadOutput_events [OF a(3)] obtain more where "events w' = events w4 @ more"
      by auto
    with a(1,2) show ?thesis
      by (intro exI [of _ "Written (tw + of_nat (transferred env w (ucast len - tw))) ov' w'"]
          exI [of _ "EvGetOverlappedResult (m_stdin_w p) False # more"])
        (simp add: write_events_def)
  qed
qed

lemma Write_reaches_bound:
  assumes "Write_reaches env p data len (0, ov0, w0) s"
  shows "unat (fst s) \<le> unat (ucast len :: DWORD)"
  using assms
proof (induction rule: Write_reaches.induct)
  case start
  show ?case by simp
next
  case (iterate total_written overlapped w total_written1 overlapped1 w1)
  from Write_iteration_stdin [OF iterate(3)] iterate(4) show ?case by simp
qed

lemma ucast_4GiB: "(ucast (4294967296 :: size_t) :: DWORD) = 0"
  by (simp add: word_eq_iff_unsigned [where ?'a = nat] unsigned_ucast_eq take_bit_eq_mod)

lemma Write_loop_never_succeeds:
  assumes "2 ^ 32 \<le> unat len"
  shows "Write_loop fuel env p data len tw ov w \<noteq> Some (True, w')"
proof (induction fuel arbitrary: tw ov w)
  case 0
  have "unat tw < 2 ^ 32" using unsigned_less [of tw] by simp
  with assms have "ucast tw < len"
    by (simp add: word_less_nat_alt unat_ucast_DWORD)
  then show ?case by simp
next
  case (Suc fuel)
  have "unat tw < 2 ^ 32" using unsigned_less [of tw] by simp
  with assms have "ucast tw < len"
    by (simp add: word_less_nat_alt unat_ucast_DWORD)
  with Suc.IH show ?case
    by (simp split: option.splits iteration.splits)
qed

lemma healthy_iteration_4GiB:
  "\<exists>ov' w'. Write_iteration healthy p data 4294967296 0 ov w = Some (Written 0 ov' w')"
proof -
  have "r_ok (healthy (clock w)) \<or> r_error (healthy (clock w)) = ERROR_IO_PENDING"
    "r_wait (healthy (Suc (clock w))) = STATUS_WAIT_0" "r_ok (healthy (Suc (Suc (clock w))))"
    by (simp_all add: healthy_def)
  from Write_iteration_written [OF this, of p data 4294967296 0 ov]
  show ?thesis by (auto simp: ucast_4GiB transferred_def)
qed

lemma ucast_4GiB_3: "(ucast (4294967299 :: size_t) :: DWORD) = 3"
  by (simp add: word_eq_iff_unsigned [where ?'a = nat] unsigned_ucast_eq take_bit_eq_mod)

section \<open>The drain without a sink\<close>

lemma silent_fields [simp]:
  "clock (silent w) = clock w" "stdout_buf (silent w) = stdout_buf w"
  "child_stdin (silent w) = child_stdin w" "last_error (silent w) = last_error w"
  "process_id (silent w) = process_id w"
  "events (silent w) = filter (\<lambda>e. \<not> is_print e) (events w)"
  by (simp_all add: silent_def)

lemma silent_after_call:
  "\<not> is_print e \<Longrightarrow> after_call env e (silent w) = silent (after_call env e w)"
  by (simp add: after_call_def silent_def)

lemma silent_call_print_fn: "silent (call_print_fn f c w) = silent w"
  by (simp add: call_print_fn_def silent_def)

lemma silent_update:
  "(silent w)\<lparr>last_error := e\<rparr> = silent (w\<lparr>last_error := e\<rparr>)"
  "(silent w)\<lparr>stdout_buf := b\<rparr> = silent (w\<lparr>stdout_buf := b\<rparr>)"
  by (simp_all add: silent_def)

lemma silent_ReadFile:
  "ReadFile env h n (silent w) =
     map_option (\<lambda>(ok, c, w'). (ok, c, silent w')) (ReadFile env h n w)"
  by (simp add: ReadFile_def Let_def silent_after_call silent_update)

lemma silent_ReadOutput_loop:
  "ReadOutput_loop env (p\<lparr>m_print_fn := None\<rparr>) available total_read (silent w) =
     map_option (\<lambda>(n, w'). (n, silent w')) (ReadOutput_loop env p available total_read w)"
proof (induction env p available total_read w rule: ReadOutput_loop.induct)
  case (1 env p available total_read w)
  let ?q = "p\<lparr>m_print_fn := None\<rparr>"
  show ?case
  proof (cases "total_read < available")
    case False
    then show ?thesis by (simp add: ReadOutput_loop.simps)
  next
    case lt: True
    show ?thesis
    proof (cases "ReadFile env (m_stdout_r p) (read_size available total_read) w")
      case None
      with lt show ?thesis
        by (simp add: ReadOutput_loop.simps [of env _ available total_read] silent_ReadFile)
    next
      case (Some res)
      obtain ok chunk w1 where res: "res = (ok, chunk, w1)" by (cases res)
      note rd = Some [unfolded res]
      show ?thesis
      proof (cases ok)
        case False
        with lt rd show ?thesis
          by (simp add: ReadOutput_loop.simps [of env _ available total_read] silent_ReadFile)
      next
        case True
        let ?w2 = "case m_print_fn p of None \<Rightarrow> w1 | Some f \<Rightarrow> call_print_fn f chunk w1"
        have s: "silent ?w2 = silent w1"
          by (simp add: silent_call_print_fn split: option.splits)
        from "1.IH" [OF lt rd refl refl] True
        have "ReadOutput_loop env ?q available (total_read + of_nat (length chunk)) (silent w1) =
            map_option (\<lambda>(n, w'). (n, silent w'))
              (ReadOutput_loop env p available (total_read + of_nat (length chunk)) ?w2)"
          by (simp add: s)
        with lt rd True show ?thesis
          by (simp add: ReadOutput_loop.simps [of env _ available total_read] silent_ReadFile)
      qed
    qed
  qed
qed

lemma silent_ReadOutput:
  "ReadOutput env (p\<lparr>m_print_fn := None\<rparr>) (silent w) =
     map_option (\<lambda>(n, w'). (n, silent w')) (ReadOutput env p w)"
  by (simp add: ReadOutput_def PeekNamedPipe_def Let_def silent_after_call silent_update
      silent_ReadOutput_loop split: option.splits)

lemma ReadOutput_without_sink:
  "map_option (\<lambda>(n, w'). (n, silent w')) (ReadOutput env (SetPrintFunc None p) w) =
   map_option (\<lambda>(n, w'). (n, silent w')) (ReadOutput env p w)"
proof -
  have "map_option (\<lambda>(n, w'). (n, silent w')) (ReadOutput env (SetPrintFunc None p) w) =
        ReadOutput env ((SetPrintFunc None p)\<lparr>m_print_fn := None\<rparr>) (silent w)"
    by (rule silent_ReadOutput [symmetric])
  also have "(SetPrintFunc None p)\<lparr>m_print_fn := None\<rparr> = p\<lparr>m_print_fn := None\<rparr>"
    by (simp add: SetPrintFunc_def)
  also have "ReadOutput env (p\<lparr>m_print_fn := None\<rparr>) (silent w) =
        map_option (\<lambda>(n, w'). (n, silent w')) (ReadOutput env p w)"
    by (rule silent_ReadOutput)
  finally show ?thesis .
qed

lemma read_events_None:
  "m_print_fn p = None \<Longrightarrow>
   concat (map (read_events p) chunks) =
     map (\<lambda>c. EvReadFile (m_stdout_r p) (of_nat (length c))) chunks"
  by (induction chunks) (simp_all add: read_events_def)

section \<open>Channel names\<close>

declare show_nat.simps [simp del]

lemma show_nat_nonempty: "show_nat b d n \<noteq> []"
  by (subst show_nat.simps) simp

lemma show_nat_set: "2 \<le> b \<Longrightarrow> set (show_nat b d n) \<subseteq> d ` {..<b}"
proof (induction b d n rule: show_nat.induct)
  case (1 base digit n)
  show ?case
  proof (cases "n < base \<or> base < 2")
    case True
    with "1.prems" show ?thesis by (subst show_nat.simps) auto
  next
    case False
    with "1.IH" "1.prems" have "set (show_nat base digit (n div base)) \<subseteq> digit ` {..<base}"
      by simp
    moreover from "1.prems" have "n mod base < base" by simp
    ultimately show ?thesis using False by (subst show_nat.simps) auto
  qed
qed

lemma show_nat_small: "2 \<le> b \<Longrightarrow> n < b \<Longrightarrow> show_nat b d n = [d n]"
  by (subst show_nat.simps) simp

lemma show_nat_large:
  "2 \<le> b \<Longrightarrow> \<not> n < b \<Longrightarrow> show_nat b d n = show_nat b d (n div b) @ [d (n mod b)]"
  by (subst show_nat.simps) simp

lemma show_nat_inj:
  assumes b: "2 \<le> b" and d: "inj_on d {..<b}"
  shows "show_nat b d n = show_nat b d m \<Longrightarrow> n = m"
proof (induction n arbitrary: m rule: less_induct)
  case (less n)
  note eq = less.prems
  show ?case
  proof (cases "n < b")
    case n: True
    show ?thesis
    proof (cases "m < b")
      case True
      with n eq b have "d n = d m" by (simp add: show_nat_small)
      with d n True show ?thesis by (auto dest: inj_onD)
    next
      case False
      with n eq b have "[d n] = show_nat b d (m div b) @ [d (m mod b)]"
        by (simp add: show_nat_small show_nat_large)
      then have "show_nat b d (m div b) = []" by simp
      with show_nat_nonempty show ?thesis by blast
    qed
  next
    case n: False
    show ?thesis
    proof (cases "m < b")
      case True
      with n eq b have "show_nat b d (n div b) @ [d (n mod b)] = [d m]"
        by (simp add: show_nat_small show_nat_large)
      then have "show_nat b d (n div b) = []" by simp
      with show_nat_nonempty show ?thesis by blast
    next
      case False
      with n eq b have e: "show_nat b d (n div b) = show_nat b d (m div b)"
        "d (n mod b) = d (m mod b)"
        by (simp_all add: show_nat_large)
      from n b have "n div b < n" by simp
      from less.IH [OF this e(1)] have q: "n div b = m div b" .
      from b have "n mod b < b" "m mod b < b" by simp_all
      with d e(2) have r: "n mod b = m mod b" by (auto dest: inj_onD)
      have "n = n div b * b + n mod b" by simp
      also have "\<dots> = m div b * b + m mod b" by (simp only: q r)
      also have "\<dots> = m" by simp
      finally show ?thesis .
    qed
  qed
qed

lemma decimal_digit_inj: "inj_on decimal_digit {..<10}"
proof -
  have "distinct ''0123456789''" by simp
  then show ?thesis
    unfolding inj_on_def decimal_digit_def by (auto simp: nth_eq_iff_index_eq)
qed

lemma show_dec_inj: "show_dec n = show_dec m \<Longrightarrow> n = m"
  unfolding show_dec_def by (rule show_nat_inj [OF _ decimal_digit_inj]) simp_all

lemma decimal_digit_not_underscore: "d < 10 \<Longrightarrow> decimal_digit d \<noteq> CHR ''_''"
proof -
  assume "d < 10"
  then have "''0123456789'' ! d \<in> set ''0123456789''" by (intro nth_mem) simp
  then show ?thesis unfolding decimal_digit_def by auto
qed

lemma show_dec_no_underscore: "CHR ''_'' \<notin> set (show_dec n)"
proof
  assume "CHR ''_'' \<in> set (show_dec n)"
  with show_nat_set [of 10 decimal_digit n] have "CHR ''_'' \<in> decimal_digit ` {..<10}"
    by (auto simp: show_dec_def)
  then obtain d where "d < 10" "decimal_digit d = CHR ''_''" by auto
  with decimal_digit_not_underscore show False by blast
qed

lemma split_at_mark:
  assumes "xs @ c # ys = xs' @ c # ys'" and "c \<notin> set xs" and "c \<notin> set xs'"
  shows "xs = xs' \<and> ys = ys'"
  using assms
proof (induction xs arbitrary: xs')
  case Nil
  then show ?case by (cases xs') auto
next
  case (Cons x xs)
  then show ?case by (cases xs') auto
qed


lemma hex_digit_inj: "inj_on hex_digit {..<16}"
proof -
  have "distinct ''0123456789ABCDEF''" by simp
  then show ?thesis
    unfolding inj_on_def hex_digit_def by (auto simp: nth_eq_iff_index_eq)
qed

lemma show_hex_ptr_inj: "inj show_hex_ptr"
proof (rule injI)
  fix a b :: "64 word"
  assume "show_hex_ptr a = show_hex_ptr b"
  then have "unat a = unat b"
    unfolding show_hex_ptr_def by (intro show_nat_inj [OF _ hex_digit_inj]) simp_all
  then show "a = b" by (simp add: word_eq_iff_unsigned [where ?'a = nat])
qed

lemma show_hex_ptr_no_underscore: "CHR ''_'' \<notin> set (show_hex_ptr a)"
proof
  assume "CHR ''_'' \<in> set (show_hex_ptr a)"
  with show_nat_set [of 16 hex_digit "unat a"] have "CHR ''_'' \<in> hex_digit ` {..<16}"
    by (auto simp: show_hex_ptr_def)
  then obtain d where d: "d < 16" "hex_digit d = CHR ''_''" by auto
  from d(1) have "''0123456789ABCDEF'' ! d \<in> set ''0123456789ABCDEF''"
    by (intro nth_mem) simp
  with d(2) show False unfolding hex_digit_def by auto
qed

section \<open>Closing and destroying\<close>

lemma close_unless_events:
  "events (close_unless env sentinel hs w) =
     events w @ map EvCloseHandle (filter (\<lambda>h. h \<noteq> sentinel) hs)"
  by (induction hs arbitrary: w) (simp_all add: CloseHandle_def Let_def)

lemma Pipe_destructor_events:
  "events (Pipe_destructor env p w) = events w @ map EvCloseHandle (owned p)"
  unfolding Pipe_destructor_def Let_def close_unless_events owned_def
  by (simp only: append_assoc map_append)

text \<open>A session on which nothing was acquired yet has nothing to release.\<close>

lemma Pipe_destructor_fresh: "events (Pipe_destructor env Pipe_init w) = events w"
  by (simp add: Pipe_destructor_events owned_def Pipe_init_def NULL_def)

lemma closed_handles_append [simp]:
  "closed_handles (xs @ ys) = closed_handles xs @ closed_handles ys"
  by (induction xs rule: closed_handles.induct) simp_all

lemma closed_handles_map [simp]: "closed_handles (map EvCloseHandle hs) = hs"
  by (induction hs) simp_all

lemma closed_handles_read_events [simp]:
  "closed_handles (concat (map (read_events p) chunks)) = []"
  by (induction chunks) (simp_all add: read_events_def split: option.splits)

lemma Close_spec:
  "\<exists>n w3 w'. Close env p timeout_ms terminate w = Some (p\<lparr>m_stdin_w := INVALID_HANDLE_VALUE\<rparr>, w') \<and>
     events w3 = events w @
       [EvCloseHandle (m_stdin_w p), EvWaitForSingleObject (hProcess (m_procinfo p)) timeout_ms] @
       (if r_wait (env (Suc (clock w))) \<noteq> STATUS_WAIT_0 \<and> terminate
        then [EvTerminateProcess (hProcess (m_procinfo p)) (- 1)] else []) \<and>
     ReadOutput env (p\<lparr>m_stdin_w := INVALID_HANDLE_VALUE\<rparr>) w3 = Some (n, w')"
proof -
  let ?p1 = "p\<lparr>m_stdin_w := INVALID_HANDLE_VALUE\<rparr>"
  define w1 where "w1 = snd (CloseHandle env (m_stdin_w p) w)"
  define w2 where "w2 = snd (WaitForSingleObject env (hProcess (m_procinfo p)) timeout_ms w1)"
  define w3 where "w3 = (if r_wait (env (Suc (clock w))) \<noteq> STATUS_WAIT_0 \<and> terminate
     then snd (TerminateProcess env (hProcess (m_procinfo p)) (- 1) w2) else w2)"
  obtain n w' where rd: "ReadOutput env ?p1 w3 = Some (n, w')"
    using ReadOutput_returns by blast
  have 1: "events w1 = events w @ [EvCloseHandle (m_stdin_w p)]" "clock w1 = Suc (clock w)"
    by (simp_all add: w1_def CloseHandle_def Let_def)
  have 2: "events w2 = events w1 @ [EvWaitForSingleObject (hProcess (m_procinfo p)) timeout_ms]"
    "fst (WaitForSingleObject env (hProcess (m_procinfo p)) timeout_ms w1) = r_wait (env (Suc (clock w)))"
    by (simp_all add: w2_def WaitForSingleObject_def Let_def 1)
  have 3: "events w3 = events w2 @ (if r_wait (env (Suc (clock w))) \<noteq> STATUS_WAIT_0 \<and> terminate
        then [EvTerminateProcess (hProcess (m_procinfo p)) (- 1)] else [])"
    by (simp add: w3_def TerminateProcess_def Let_def)
  have "Close env p timeout_ms terminate w =
      (case ReadOutput env ?p1 w3 of None \<Rightarrow> None | Some (n, w4) \<Rightarrow> Some (?p1, w4))"
    using 2(2)
    by (cases "r_wait (env (Suc (clock w))) \<noteq> STATUS_WAIT_0 \<and> terminate")
      (auto simp: Close_def Let_def split_beta w1_def w2_def w3_def)
  then have "Close env p timeout_ms terminate w = Some (?p1, w')"
    using rd by simp
  with rd 1 2 3 show ?thesis by (intro exI [of _ n] exI [of _ w3] exI [of _ w']) simp
qed

lemma Close_closed_handles:
  assumes "Close env p timeout_ms terminate w = Some (p', w')"
  shows "closed_handles (drop (length (events w)) (events w')) = [m_stdin_w p]"
proof -
  from Close_spec [of env p timeout_ms terminate w] assms
  obtain n w3 where c:
    "events w3 = events w @
       [EvCloseHandle (m_stdin_w p), EvWaitForSingleObject (hProcess (m_procinfo p)) timeout_ms] @
       (if r_wait (env (Suc (clock w))) \<noteq> STATUS_WAIT_0 \<and> terminate
        then [EvTerminateProcess (hProcess (m_procinfo p)) (- 1)] else [])"
    "ReadOutput env (p\<lparr>m_stdin_w := INVALID_HANDLE_VALUE\<rparr>) w3 = Some (n, w')"
    by auto
  from ReadOutput_events [OF c(2)] obtain chunks tail where d:
    "events w' = events w3 @ EvPeekNamedPipe (m_stdout_r (p\<lparr>m_stdin_w := INVALID_HANDLE_VALUE\<rparr>)) #
       concat (map (read_events (p\<lparr>m_stdin_w := INVALID_HANDLE_VALUE\<rparr>)) chunks) @ tail"
    "tail = [] \<or> (\<exists>k. tail = [EvReadFile (m_stdout_r (p\<lparr>m_stdin_w := INVALID_HANDLE_VALUE\<rparr>)) k])"
    by blast
  from d(2) have "closed_handles tail = []" by auto
  with c(1) d(1) show ?thesis by simp
qed

lemma owned_after_Close:
  "m_stdin_w p \<noteq> INVALID_HANDLE_VALUE \<Longrightarrow>
   mset (m_stdin_w p # owned (p\<lparr>m_stdin_w := INVALID_HANDLE_VALUE\<rparr>)) = mset (owned p)"
  by (simp add: owned_def)

section \<open>What a write delivers\<close>

text \<open>
  Whenever \<open>Write(buffer, length)\<close> returns, then: if it returns success, the child's
  input stream has received, after what it held before, exactly the first \<open>length\<close>
  bytes of the buffer in their order; if it returns failure, the stream has received a
  prefix of the buffer of at most \<open>length\<close> bytes, and nothing else.
\<close>

theorem Write_delivers:
  assumes "Write fuel env p data len w = Some (ok, w')"
  shows "if ok then child_stdin w' = child_stdin w @ map data [0 ..< unat len]
         else \<exists>n \<le> unat len. child_stdin w' = child_stdin w @ map data [0 ..< n]"
proof -
  have le: "unat (ucast len :: DWORD) \<le> unat len"
    by (simp add: unsigned_ucast_eq take_bit_eq_mod)
  from Write_loop_stdin [OF assms [unfolded Write_def]]
  obtain n where "n \<le> unat (ucast len :: DWORD)" "ok \<longrightarrow> n = unat len"
    "child_stdin w' = child_stdin w @ map data [0 ..< n]"
    by auto
  with le show ?thesis by (cases ok) (auto intro: exI [of _ n])
qed

theorem Write_delivers_witness:
  "\<exists>w'. Write (Suc (Suc 0)) steady session ramp 3 boot = Some (True, w') \<and>
        child_stdin w' = child_stdin boot @ map ramp [0 ..< unat (3 :: size_t)]"
proof -
  have run: "Write (Suc (Suc 0)) steady session ramp 3 boot =
      Some (True,
        \<lparr> clock = 9, process_id = 1234, last_error = 0, child_stdin = [1, 2, 3],
          stdout_buf = [],
          events =
            [EvWriteFile 8 0 3, EvWaitForMultipleObjects [28, 20] False 10000,
             EvGetOverlappedResult 8 False, EvPeekNamedPipe 12, EvReadFile 12 2,
             EvPrint DefaultPrintFunc [104, 105],
             EvWriteFile 8 2 1, EvWaitForMultipleObjects [28, 20] False 10000,
             EvGetOverlappedResult 8 False, EvPeekNamedPipe 12] \<rparr>)"
    by (simp add: Write_def Write_iteration_def ReadOutput_def ReadOutput_loop.simps
        api_defs sample_defs Let_def upt_conv_Cons)
  from Write_delivers [OF run] run show ?thesis by simp
qed

text \<open>
  In the environment where every call succeeds and the input channel takes whatever is
  requested, a write of fewer than \<open>2^32\<close> bytes returns success after one iteration.
\<close>

theorem Write_healthy_returns:
  assumes "unat len < 2 ^ 32"
  shows "\<exists>w'. Write (Suc 0) healthy p data len w = Some (True, w')"
proof (cases "len = 0")
  case True
  then show ?thesis by (simp add: Write_def)
next
  case False
  then have enter: "ucast (0 :: DWORD) < len"
    by (simp add: word_less_nat_alt unat_gt_0)
  have small: "unat (ucast len :: DWORD) = unat len"
    using assms by (simp add: unsigned_ucast_eq take_bit_nat_eq_self)
  have "unat (ucast len :: DWORD) < 4294967296"
    using unsigned_less [of "ucast len :: DWORD"] by simp
  then have tr: "transferred healthy w (ucast len - 0) = unat len"
    using small by (simp add: transferred_def healthy_def)
  have env: "r_ok (healthy (clock w)) \<or> r_error (healthy (clock w)) = ERROR_IO_PENDING"
    "r_wait (healthy (Suc (clock w))) = STATUS_WAIT_0" "r_ok (healthy (Suc (Suc (clock w))))"
    by (simp_all add: healthy_def)
  from Write_iteration_written [OF env, of p data len 0 "\<lparr>InternalHigh = 0, hEvent = m_event p\<rparr>"]
  obtain ov' w' where it: "Write_iteration healthy p data len 0
      \<lparr>InternalHigh = 0, hEvent = m_event p\<rparr> w = Some (Written (of_nat (unat len)) ov' w')"
    unfolding tr by auto
  have "unat (ucast (of_nat (unat len) :: DWORD) :: size_t) = unat len"
    using assms small by (simp add: unat_ucast_DWORD unat_of_nat)
  then have stop: "\<not> ucast (of_nat (unat len) :: DWORD) < len"
    by (simp add: word_less_nat_alt)
  from enter it stop show ?thesis by (simp add: Write_def)
qed

theorem Write_healthy_returns_witness:
  "unat (3 :: size_t) < 2 ^ 32 \<and> (\<exists>w'. Write (Suc 0) healthy session ramp 3 boot = Some (True, w'))"
proof -
  have "unat (3 :: size_t) < 2 ^ 32" by simp
  from this Write_healthy_returns [OF this, of session ramp boot] show ?thesis by blast
qed

text \<open>
  For a length of \<open>2^32\<close> or more \<open>Write\<close> never returns success, whatever the environment
  does: the running total, a \<open>DWORD\<close>, is below the length at every test of the loop.
\<close>

theorem Write_never_succeeds_from_4GiB:
  assumes "2 ^ 32 \<le> unat len"
  shows "Write fuel env p data len w \<noteq> Some (True, w')"
  unfolding Write_def by (rule Write_loop_never_succeeds [OF assms])

theorem Write_never_succeeds_from_4GiB_witness:
  "2 ^ 32 \<le> unat (4294967299 :: size_t) \<and>
   Write (Suc (Suc 0)) steady session ramp 4294967299 boot \<noteq> Some (True, boot)"
proof -
  have "2 ^ 32 \<le> unat (4294967299 :: size_t)" by simp
  from this Write_never_succeeds_from_4GiB [OF this] show ?thesis by blast
qed

text \<open>
  Claim C1. For every buffer and every length, \<open>Write\<close> returns success only if exactly
  \<open>length\<close> bytes were delivered in order, and returns failure otherwise. The running
  total is a \<open>DWORD\<close> and the length a \<open>size_t\<close>: for a length of \<open>2^32\<close> the request
  \<open>(DWORD)length - total_written\<close> is 0, the total stays 0 and the loop condition stays
  true. In the environment where every call succeeds, \<open>Write\<close> with that length does not
  return, however many iterations are allowed; it returns neither success nor failure. No
  drain pass is the cause: each of them returns.
\<close>

theorem Write_4GiB_never_returns:
  "Write fuel healthy p data 4294967296 w = None \<and>
   (\<exists>n v'. ReadOutput healthy p v = Some (n, v'))"
proof
  have "Write_loop fuel healthy p data 4294967296 0 ov w = None" for ov w
  proof (induction fuel arbitrary: ov w)
    case 0
    show ?case by simp
  next
    case (Suc fuel)
    from healthy_iteration_4GiB [of p data ov w] obtain ov' w' where
      "Write_iteration healthy p data 4294967296 0 ov w = Some (Written 0 ov' w')"
      by blast
    with Suc.IH show ?case by simp
  qed
  then show "Write fuel healthy p data 4294967296 w = None" by (simp add: Write_def)
next
  show "\<exists>n v'. ReadOutput healthy p v = Some (n, v')" by (rule ReadOutput_returns)
qed

section \<open>Writing nothing\<close>

text \<open>
  Claim C8. \<open>Write(buffer, 0)\<close> returns success at once, whatever the session, the
  buffer and the environment are, and however many iterations are allowed: the world is
  left as it was, so no write was submitted, no drain pass ran, and no event of any kind
  was added.
\<close>

theorem Write_zero_length:
  "Write fuel env p data 0 w = Some (True, w)"
  by (cases fuel) (simp_all add: Write_def)

section \<open>A write that stays pending\<close>

text \<open>
  Claim C2. Take any iteration of \<open>Write\<close> (the loop condition holds) whose write does not
  complete at once: \<open>WriteFile\<close> returns false with \<open>ERROR_IO_PENDING\<close>. Then the next
  call is the wait on the completion event and the process handle, for either of them
  (not for both), with the session's timeout. If the wait returns anything but
  \<open>STATUS_WAIT_0\<close> (it timed out, or the process handle was signalled first, or it
  failed), \<open>Write\<close> returns failure and these two calls are all it made. If the wait
  returns \<open>STATUS_WAIT_0\<close> and \<open>GetOverlappedResult\<close> fails, \<open>Write\<close> returns failure
  after these three calls. In both cases no drain pass and no further iteration follow.
\<close>

theorem Write_pending_wait:
  assumes "ucast tw < len"
    and "\<not> r_ok (env (clock w))" and "r_error (env (clock w)) = ERROR_IO_PENDING"
  shows
    "(\<exists>it rest. Write_iteration env p data len tw ov w = Some it \<and>
        events (world_of it) = events w @
          EvWriteFile (m_stdin_w p) (unat tw) (ucast len - tw) #
          EvWaitForMultipleObjects [m_event p, hProcess (m_procinfo p)] False (m_timeout_ms p) #
          rest) \<and>
     (r_wait (env (Suc (clock w))) \<noteq> STATUS_WAIT_0 \<longrightarrow>
        (\<exists>w'. Write_loop (Suc fuel) env p data len tw ov w = Some (False, w') \<and>
           events w' = events w @
             [EvWriteFile (m_stdin_w p) (unat tw) (ucast len - tw),
              EvWaitForMultipleObjects [m_event p, hProcess (m_procinfo p)] False
                (m_timeout_ms p)])) \<and>
     (r_wait (env (Suc (clock w))) = STATUS_WAIT_0 \<and> \<not> r_ok (env (Suc (Suc (clock w)))) \<longrightarrow>
        (\<exists>w'. Write_loop (Suc fuel) env p data len tw ov w = Some (False, w') \<and>
           events w' = events w @
             [EvWriteFile (m_stdin_w p) (unat tw) (ucast len - tw),
              EvWaitForMultipleObjects [m_event p, hProcess (m_procinfo p)] False
                (m_timeout_ms p),
              EvGetOverlappedResult (m_stdin_w p) False]))"
proof (intro conjI impI)
  from assms(3) show "\<exists>it rest. Write_iteration env p data len tw ov w = Some it \<and>
        events (world_of it) = events w @
          EvWriteFile (m_stdin_w p) (unat tw) (ucast len - tw) #
          EvWaitForMultipleObjects [m_event p, hProcess (m_procinfo p)] False (m_timeout_ms p) #
          rest"
    by (intro Write_iteration_second_event) simp
next
  assume "r_wait (env (Suc (clock w))) \<noteq> STATUS_WAIT_0"
  with assms(3) Write_iteration_wait_failed [of env w p data len tw ov]
  obtain w' where "Write_iteration env p data len tw ov w = Some (Failed w')"
    "events w' = events w @ take 2 (write_events p len tw)"
    by blast
  with assms(1) show "\<exists>w'. Write_loop (Suc fuel) env p data len tw ov w = Some (False, w') \<and>
           events w' = events w @
             [EvWriteFile (m_stdin_w p) (unat tw) (ucast len - tw),
              EvWaitForMultipleObjects [m_event p, hProcess (m_procinfo p)] False
                (m_timeout_ms p)]"
    by (simp add: write_events_def)
next
  assume "r_wait (env (Suc (clock w))) = STATUS_WAIT_0 \<and> \<not> r_ok (env (Suc (Suc (clock w))))"
  with assms(3) Write_iteration_result_failed [of env w p data len tw ov]
  obtain w' where "Write_iteration env p data len tw ov w = Some (Failed w')"
    "events w' = events w @ write_events p len tw"
    by blast
  with assms(1) show "\<exists>w'. Write_loop (Suc fuel) env p data len tw ov w = Some (False, w') \<and>
           events w' = events w @
             [EvWriteFile (m_stdin_w p) (unat tw) (ucast len - tw),
              EvWaitForMultipleObjects [m_event p, hProcess (m_procinfo p)] False
                (m_timeout_ms p),
              EvGetOverlappedResult (m_stdin_w p) False]"
    by (simp add: write_events_def)
qed

theorem Write_pending_wait_witness:
  "ucast (0 :: DWORD) < (3 :: size_t) \<and> \<not> r_ok (stalled (clock boot)) \<and>
   r_error (stalled (clock boot)) = ERROR_IO_PENDING \<and>
   r_wait (stalled (Suc (clock boot))) \<noteq> STATUS_WAIT_0 \<and>
   (\<exists>w'. Write (Suc 0) stalled session ramp 3 boot = Some (False, w') \<and>
      events w' = [EvWriteFile 8 0 3, EvWaitForMultipleObjects [28, 20] False 10000])"
proof -
  have h: "ucast (0 :: DWORD) < (3 :: size_t)" "\<not> r_ok (stalled (clock boot))"
    "r_error (stalled (clock boot)) = ERROR_IO_PENDING"
    "r_wait (stalled (Suc (clock boot))) \<noteq> STATUS_WAIT_0"
    by (simp_all add: stalled_def steady_def boot_def WAIT_TIMEOUT_def STATUS_WAIT_0_def)
  from Write_pending_wait [where env = stalled and w = boot and tw = 0 and len = 3
      and p = session and data = ramp and fuel = 0
      and ov = "\<lparr>InternalHigh = 0, hEvent = m_event session\<rparr>", OF h(1,2,3)] h(4)
  have "\<exists>w'. Write (Suc 0) stalled session ramp 3 boot = Some (False, w') \<and>
      events w' = events boot @
        [EvWriteFile (m_stdin_w session) (unat (0 :: DWORD)) (ucast (3 :: size_t) - 0),
         EvWaitForMultipleObjects [m_event session, hProcess (m_procinfo session)] False
           (m_timeout_ms session)]"
    unfolding Write_def by blast
  then have "\<exists>w'. Write (Suc 0) stalled session ramp 3 boot = Some (False, w') \<and>
      events w' = [EvWriteFile 8 0 3, EvWaitForMultipleObjects [28, 20] False 10000]"
    by (simp add: session_def boot_def)
  with h show ?thesis by blast
qed

section \<open>The steps of Close\<close>

text \<open>
  Claim C3. \<open>Close(timeout, terminate)\<close> always returns, and its steps are, in this
  order: \<open>CloseHandle\<close> on the write end of the input channel (whose field becomes
  \<open>INVALID_HANDLE_VALUE\<close>), which leads to the world \<open>w1\<close>; the wait for the child process,
  with \<open>timeout\<close>, which leads to \<open>w2\<close>; \<open>TerminateProcess\<close> if and only if that wait
  did not report the process as exited (it returned anything but \<open>STATUS_WAIT_0\<close>) and
  \<open>terminate\<close> is true, which leads to \<open>w3\<close>; then one drain pass, \<open>ReadOutput\<close> run in
  \<open>w3\<close>, whose result world is the one \<open>Close\<close> ends in. So the last step does all a
  drain pass does: one \<open>PeekNamedPipe\<close>, then the reads of what it measured (\<open>B\<close>), each
  followed by the call of the sink, and the bytes read are gone from the output channel.
  A wait that times out changes nothing else: \<open>Close\<close> completes the same way.
\<close>

theorem Close_steps:
  fixes env :: env and p :: Pipe and timeout_ms :: DWORD and terminate :: bool and w :: world
  defines "p1 \<equiv> p\<lparr>m_stdin_w := INVALID_HANDLE_VALUE\<rparr>"
  defines "w1 \<equiv> snd (CloseHandle env (m_stdin_w p) w)"
  defines "result \<equiv> fst (WaitForSingleObject env (hProcess (m_procinfo p)) timeout_ms w1)"
  defines "w2 \<equiv> snd (WaitForSingleObject env (hProcess (m_procinfo p)) timeout_ms w1)"
  defines "w3 \<equiv> if result \<noteq> STATUS_WAIT_0 \<and> terminate
                 then snd (TerminateProcess env (hProcess (m_procinfo p)) (- 1) w2) else w2"
  defines "B \<equiv> take stdout_capacity (stdout_buf w3 @ r_child_out (env (clock w3)))"
  shows
    "\<exists>n w' chunks tail extra.
       Close env p timeout_ms terminate w = Some (p1, w') \<and>
       ReadOutput env p1 w3 = Some (n, w') \<and>
       result = r_wait (env (Suc (clock w))) \<and>
       events w1 = events w @ [EvCloseHandle (m_stdin_w p)] \<and>
       events w2 = events w1 @ [EvWaitForSingleObject (hProcess (m_procinfo p)) timeout_ms] \<and>
       events w3 = events w2 @
         (if result \<noteq> STATUS_WAIT_0 \<and> terminate
          then [EvTerminateProcess (hProcess (m_procinfo p)) (- 1)] else []) \<and>
       events w' = events w @
         [EvCloseHandle (m_stdin_w p),
          EvWaitForSingleObject (hProcess (m_procinfo p)) timeout_ms] @
         (if r_wait (env (Suc (clock w))) \<noteq> STATUS_WAIT_0 \<and> terminate
          then [EvTerminateProcess (hProcess (m_procinfo p)) (- 1)] else []) @
         EvPeekNamedPipe (m_stdout_r p) # concat (map (read_events p) chunks) @ tail \<and>
       unat n = length (concat chunks) \<and>
       concat chunks = take (unat n) B \<and>
       stdout_buf w' = drop (unat n) B @ extra \<and>
       (if r_ok (env (clock w3))
        then tail = [] \<and> unat n = length B \<or>
             (\<exists>k. tail = [EvReadFile (m_stdout_r p) k]) \<and>
             \<not> r_ok (env (Suc (clock w3) + length chunks))
        else n = 0 \<and> chunks = [] \<and> tail = [])"
proof -
  have 1: "events w1 = events w @ [EvCloseHandle (m_stdin_w p)]" "clock w1 = Suc (clock w)"
    by (simp_all add: w1_def CloseHandle_def Let_def)
  have 2: "events w2 = events w1 @ [EvWaitForSingleObject (hProcess (m_procinfo p)) timeout_ms]"
    "result = r_wait (env (Suc (clock w)))"
    by (simp_all add: w2_def result_def WaitForSingleObject_def Let_def 1)
  have 3: "events w3 = events w2 @ (if result \<noteq> STATUS_WAIT_0 \<and> terminate
        then [EvTerminateProcess (hProcess (m_procinfo p)) (- 1)] else [])"
    by (simp add: w3_def TerminateProcess_def Let_def)
  have cl: "Close env p timeout_ms terminate w =
      (case ReadOutput env p1 w3 of None \<Rightarrow> None | Some (n, w4) \<Rightarrow> Some (p1, w4))"
    unfolding p1_def w1_def w2_def w3_def result_def
    by (auto simp: Close_def Let_def split_beta)
  from ReadOutput_spec [of env p1 w3, folded B_def]
  obtain n w' chunks tail extra where
    a: "ReadOutput env p1 w3 = Some (n, w')" "unat n \<le> length B"
      "concat chunks = take (unat n) B"
      "stdout_buf w' = drop (unat n) B @ extra"
      "events w' = events w3 @ EvPeekNamedPipe (m_stdout_r p1) #
                      concat (map (read_events p1) chunks) @ tail"
      "if r_ok (env (clock w3))
         then tail = [] \<and> unat n = length B \<or>
              (\<exists>k. tail = [EvReadFile (m_stdout_r p1) k]) \<and>
              \<not> r_ok (env (Suc (clock w3) + length chunks))
         else n = 0 \<and> chunks = [] \<and> tail = []"
    by blast
  have q: "read_events p1 = read_events p" "m_stdout_r p1 = m_stdout_r p"
    by (rule ext) (simp_all add: read_events_def p1_def)
  from a(2,3) have len: "unat n = length (concat chunks)" by simp
  from cl a(1) have c: "Close env p timeout_ms terminate w = Some (p1, w')" by simp
  from a(5) 1 2 3 have ev: "events w' = events w @
         [EvCloseHandle (m_stdin_w p),
          EvWaitForSingleObject (hProcess (m_procinfo p)) timeout_ms] @
         (if r_wait (env (Suc (clock w))) \<noteq> STATUS_WAIT_0 \<and> terminate
          then [EvTerminateProcess (hProcess (m_procinfo p)) (- 1)] else []) @
         EvPeekNamedPipe (m_stdout_r p) # concat (map (read_events p) chunks) @ tail"
    by (simp add: q)
  from a(6) have fin: "if r_ok (env (clock w3))
        then tail = [] \<and> unat n = length B \<or>
             (\<exists>k. tail = [EvReadFile (m_stdout_r p) k]) \<and>
             \<not> r_ok (env (Suc (clock w3) + length chunks))
        else n = 0 \<and> chunks = [] \<and> tail = []"
    unfolding q(2) .
  from c a(1) 2(2) 1(1) 2(1) 3 ev len a(3) a(4) fin show ?thesis by blast
qed

theorem Close_steps_witness:
  "Close steady session 5000 True boot =
     Some (session\<lparr>m_stdin_w := INVALID_HANDLE_VALUE\<rparr>,
       \<lparr> clock = 4, process_id = 1234, last_error = 0, child_stdin = [], stdout_buf = [],
         events = [EvCloseHandle 8, EvWaitForSingleObject 20 5000, EvPeekNamedPipe 12,
                   EvReadFile 12 2, EvPrint DefaultPrintFunc [104, 105]] \<rparr>) \<and>
   ReadOutput steady (session\<lparr>m_stdin_w := INVALID_HANDLE_VALUE\<rparr>)
       \<lparr> clock = 2, process_id = 1234, last_error = 0, child_stdin = [],
         stdout_buf = [104, 105],
         events = [EvCloseHandle 8, EvWaitForSingleObject 20 5000] \<rparr> =
     Some (2,
       \<lparr> clock = 4, process_id = 1234, last_error = 0, child_stdin = [], stdout_buf = [],
         events = [EvCloseHandle 8, EvWaitForSingleObject 20 5000, EvPeekNamedPipe 12,
                   EvReadFile 12 2, EvPrint DefaultPrintFunc [104, 105]] \<rparr>) \<and>
   map_option (events \<circ> snd)
     (Close (steady (1 := (steady 1)\<lparr>r_wait := WAIT_TIMEOUT\<rparr>)) session 5000 True boot) =
     Some [EvCloseHandle 8, EvWaitForSingleObject 20 5000, EvTerminateProcess 20 (- 1),
           EvPeekNamedPipe 12, EvReadFile 12 2, EvPrint DefaultPrintFunc [104, 105]]"
proof -
  let ?q = "session\<lparr>m_stdin_w := INVALID_HANDLE_VALUE\<rparr>"
  let ?w3 = "\<lparr> clock = 2, process_id = 1234, last_error = 0, child_stdin = [],
         stdout_buf = [104, 105],
         events = [EvCloseHandle 8, EvWaitForSingleObject 20 5000] \<rparr>"
  have w3: "(if fst (WaitForSingleObject steady (hProcess (m_procinfo session)) 5000
                   (snd (CloseHandle steady (m_stdin_w session) boot))) \<noteq> STATUS_WAIT_0 \<and> True
             then snd (TerminateProcess steady (hProcess (m_procinfo session)) (- 1)
                    (snd (WaitForSingleObject steady (hProcess (m_procinfo session)) 5000
                       (snd (CloseHandle steady (m_stdin_w session) boot)))))
             else snd (WaitForSingleObject steady (hProcess (m_procinfo session)) 5000
                       (snd (CloseHandle steady (m_stdin_w session) boot)))) = ?w3"
    by (simp add: api_defs sample_defs Let_def)
  have drain: "ReadOutput steady ?q ?w3 =
     Some (2,
       \<lparr> clock = 4, process_id = 1234, last_error = 0, child_stdin = [], stdout_buf = [],
         events = [EvCloseHandle 8, EvWaitForSingleObject 20 5000, EvPeekNamedPipe 12,
                   EvReadFile 12 2, EvPrint DefaultPrintFunc [104, 105]] \<rparr>)"
    by (simp add: ReadOutput_def ReadOutput_loop.simps api_defs sample_defs Let_def)
  from Close_steps [of steady session 5000 True boot, unfolded w3]
  obtain n w' where c: "Close steady session 5000 True boot = Some (?q, w')"
    "ReadOutput steady ?q ?w3 = Some (n, w')"
    by blast
  from c drain have 1: "Close steady session 5000 True boot =
     Some (?q,
       \<lparr> clock = 4, process_id = 1234, last_error = 0, child_stdin = [], stdout_buf = [],
         events = [EvCloseHandle 8, EvWaitForSingleObject 20 5000, EvPeekNamedPipe 12,
                   EvReadFile 12 2, EvPrint DefaultPrintFunc [104, 105]] \<rparr>)"
    by simp
  have 2: "map_option (events \<circ> snd)
     (Close (steady (1 := (steady 1)\<lparr>r_wait := WAIT_TIMEOUT\<rparr>)) session 5000 True boot) =
     Some [EvCloseHandle 8, EvWaitForSingleObject 20 5000, EvTerminateProcess 20 (- 1),
           EvPeekNamedPipe 12, EvReadFile 12 2, EvPrint DefaultPrintFunc [104, 105]]"
    by (simp add: Close_def ReadOutput_def ReadOutput_loop.simps api_defs sample_defs Let_def
        WAIT_TIMEOUT_def)
  from 1 drain 2 show ?thesis by simp
qed

section \<open>Releasing the handles\<close>

text \<open>
  Claim C4, as the code has it. Every handle field holds a handle or its sentinel
  (\<open>NULL\<close> for the event, the process and the thread, \<open>INVALID_HANDLE_VALUE\<close> for the four
  ends of the channels). \<open>Close\<close> releases the write end of the input channel and nothing
  else, sets that field to its sentinel at once and leaves every other field as it is. The
  destructor releases each field that does not hold its sentinel, once, and nothing else;
  so after \<open>Close\<close> it passes over the write end of the input channel, and \<open>Close\<close>
  followed by destruction releases every handle the session owned exactly once.
\<close>

theorem Close_and_destructor_release:
  "\<exists>w'. Close env p timeout_ms terminate w = Some (p\<lparr>m_stdin_w := INVALID_HANDLE_VALUE\<rparr>, w') \<and>
     closed_handles (drop (length (events w)) (events w')) = [m_stdin_w p] \<and>
     events (Pipe_destructor env (p\<lparr>m_stdin_w := INVALID_HANDLE_VALUE\<rparr>) w') =
       events w' @ map EvCloseHandle (owned (p\<lparr>m_stdin_w := INVALID_HANDLE_VALUE\<rparr>)) \<and>
     events (Pipe_destructor env p w) = events w @ map EvCloseHandle (owned p) \<and>
     (m_stdin_w p \<noteq> INVALID_HANDLE_VALUE \<longrightarrow>
        mset (closed_handles (drop (length (events w))
               (events (Pipe_destructor env (p\<lparr>m_stdin_w := INVALID_HANDLE_VALUE\<rparr>) w'))))
          = mset (owned p))"
proof -
  let ?q = "p\<lparr>m_stdin_w := INVALID_HANDLE_VALUE\<rparr>"
  from Close_spec [of env p timeout_ms terminate w]
  obtain w' where c: "Close env p timeout_ms terminate w = Some (?q, w')" by blast
  note h = Close_closed_handles [OF c]
  from Close_spec [of env p timeout_ms terminate w] c ReadOutput_events
  obtain more where ext: "events w' = events w @ more"
    by (metis append.assoc option.inject prod.inject)
  have d: "events (Pipe_destructor env ?q w') = events w' @ map EvCloseHandle (owned ?q)"
    by (rule Pipe_destructor_events)
  have "closed_handles (drop (length (events w)) (events (Pipe_destructor env ?q w'))) =
      m_stdin_w p # owned ?q"
    using h unfolding d ext by simp
  then have "m_stdin_w p \<noteq> INVALID_HANDLE_VALUE \<longrightarrow>
        mset (closed_handles (drop (length (events w)) (events (Pipe_destructor env ?q w'))))
          = mset (owned p)"
    using owned_after_Close [of p] by simp
  with c h d Pipe_destructor_events [of env p w] show ?thesis by blast
qed

theorem Close_and_destructor_release_witness:
  "m_stdin_w session \<noteq> INVALID_HANDLE_VALUE \<and>
   (\<exists>w'. Close steady session 5000 True boot =
            Some (session\<lparr>m_stdin_w := INVALID_HANDLE_VALUE\<rparr>, w') \<and>
      closed_handles (events w') = [8] \<and>
      closed_handles (events
        (Pipe_destructor steady (session\<lparr>m_stdin_w := INVALID_HANDLE_VALUE\<rparr>) w')) =
        [8, 28, 20, 24, 4, 12, 16])"
proof -
  have v: "m_stdin_w session \<noteq> INVALID_HANDLE_VALUE"
    by (simp add: session_def INVALID_HANDLE_VALUE_def)
  from Close_and_destructor_release [of steady session 5000 True boot]
  obtain w' where c:
    "Close steady session 5000 True boot = Some (session\<lparr>m_stdin_w := INVALID_HANDLE_VALUE\<rparr>, w')"
    "closed_handles (drop (length (events boot)) (events w')) = [m_stdin_w session]"
    "events (Pipe_destructor steady (session\<lparr>m_stdin_w := INVALID_HANDLE_VALUE\<rparr>) w') =
       events w' @ map EvCloseHandle (owned (session\<lparr>m_stdin_w := INVALID_HANDLE_VALUE\<rparr>))"
    by blast
  have o: "owned (session\<lparr>m_stdin_w := INVALID_HANDLE_VALUE\<rparr>) = [28, 20, 24, 4, 12, 16]"
    by (simp add: owned_def session_def NULL_def INVALID_HANDLE_VALUE_def)
  from c(2) have 1: "closed_handles (events w') = [8]"
    by (simp add: boot_def session_def)
  from c(3) 1 o have 2: "closed_handles (events
        (Pipe_destructor steady (session\<lparr>m_stdin_w := INVALID_HANDLE_VALUE\<rparr>) w')) =
        [8, 28, 20, 24, 4, 12, 16]"
    by simp
  from v c(1) 1 2 show ?thesis by blast
qed

text \<open>
  Claim C4 as stated has \<open>Close\<close> itself release every resource still owned. On the
  sample session, which owns seven handles, \<open>Close\<close> releases one.
\<close>

theorem Close_releases_one_handle:
  "map_option (closed_handles \<circ> events \<circ> snd) (Close steady session 5000 True boot) = Some [8] \<and>
   owned session = [28, 20, 24, 4, 8, 12, 16]"
  by (simp add: Close_def ReadOutput_def ReadOutput_loop.simps api_defs sample_defs Let_def owned_def)

section \<open>What a drain pass does\<close>

text \<open>
  Claim C5. A drain pass always returns. It first asks \<open>PeekNamedPipe\<close> how many bytes
  wait in the output channel (\<open>B\<close> below is what waits at that moment) and takes none. If
  that call fails the pass returns 0. Otherwise it reads chunks of at least one and at most
  256 bytes; each chunk read is handed to the sink before the next read is issued; the
  chunks, in order, are the first \<open>n\<close> bytes of \<open>B\<close>, where \<open>n\<close> is the value returned,
  and they are gone from the channel, whose remaining bytes and later arrivals stay. The
  pass ends with all of \<open>B\<close> read (\<open>n\<close> is its length), or with one read that failed. A
  failed read is not passed on: an iteration of \<open>Write\<close> whose write, wait and result
  succeed goes on to the next iteration whatever the drain did, and \<open>Close\<close> returns
  normally.
\<close>

theorem ReadOutput_drain_pass:
  fixes env :: env and p :: Pipe and w v :: world
  defines "B \<equiv> take stdout_capacity (stdout_buf w @ r_child_out (env (clock w)))"
  shows
    "(\<exists>n w' chunks tail extra.
        ReadOutput env p w = Some (n, w') \<and>
        unat n = length (concat chunks) \<and>
        concat chunks = take (unat n) B \<and>
        (\<forall>c\<in>set chunks. 0 < length c \<and> length c \<le> 256) \<and>
        stdout_buf w' = drop (unat n) B @ extra \<and>
        events w' = events w @ EvPeekNamedPipe (m_stdout_r p) #
                      concat (map (read_events p) chunks) @ tail \<and>
        (if r_ok (env (clock w))
         then tail = [] \<and> unat n = length B \<or>
              (\<exists>k. tail = [EvReadFile (m_stdout_r p) k]) \<and>
              \<not> r_ok (env (Suc (clock w) + length chunks))
         else n = 0 \<and> chunks = [] \<and> tail = [])) \<and>
     ((r_ok (env (clock v)) \<or> r_error (env (clock v)) = ERROR_IO_PENDING) \<and>
      r_wait (env (Suc (clock v))) = STATUS_WAIT_0 \<and> r_ok (env (Suc (Suc (clock v)))) \<longrightarrow>
      (\<exists>tw' ov' v'. Write_iteration env p data len tw ov v = Some (Written tw' ov' v'))) \<and>
     (\<exists>p' v'. Close env p timeout_ms terminate v = Some (p', v'))"
proof (intro conjI impI)
  from ReadOutput_spec [of env p w, folded B_def]
  obtain n w' chunks tail extra where
    a: "ReadOutput env p w = Some (n, w')" "unat n \<le> length B"
      "concat chunks = take (unat n) B"
      "\<forall>c\<in>set chunks. 0 < length c \<and> length c \<le> 256"
      "stdout_buf w' = drop (unat n) B @ extra"
      "events w' = events w @ EvPeekNamedPipe (m_stdout_r p) #
                      concat (map (read_events p) chunks) @ tail"
      "if r_ok (env (clock w))
         then tail = [] \<and> unat n = length B \<or>
              (\<exists>k. tail = [EvReadFile (m_stdout_r p) k]) \<and>
              \<not> r_ok (env (Suc (clock w) + length chunks))
         else n = 0 \<and> chunks = [] \<and> tail = []"
    by blast
  from a(2,3) have "unat n = length (concat chunks)" by simp
  with a show "\<exists>n w' chunks tail extra.
        ReadOutput env p w = Some (n, w') \<and>
        unat n = length (concat chunks) \<and>
        concat chunks = take (unat n) B \<and>
        (\<forall>c\<in>set chunks. 0 < length c \<and> length c \<le> 256) \<and>
        stdout_buf w' = drop (unat n) B @ extra \<and>
        events w' = events w @ EvPeekNamedPipe (m_stdout_r p) #
                      concat (map (read_events p) chunks) @ tail \<and>
        (if r_ok (env (clock w))
         then tail = [] \<and> unat n = length B \<or>
              (\<exists>k. tail = [EvReadFile (m_stdout_r p) k]) \<and>
              \<not> r_ok (env (Suc (clock w) + length chunks))
         else n = 0 \<and> chunks = [] \<and> tail = [])"
    by blast
next
  assume "(r_ok (env (clock v)) \<or> r_error (env (clock v)) = ERROR_IO_PENDING) \<and>
      r_wait (env (Suc (clock v))) = STATUS_WAIT_0 \<and> r_ok (env (Suc (Suc (clock v))))"
  then show "\<exists>tw' ov' v'. Write_iteration env p data len tw ov v = Some (Written tw' ov' v')"
    using Write_iteration_written [of env v p data len tw ov] by blast
next
  show "\<exists>p' v'. Close env p timeout_ms terminate v = Some (p', v')"
    using Close_spec [of env p timeout_ms terminate v] by blast
qed

theorem ReadOutput_drain_pass_witness:
  "(\<exists>n w'. ReadOutput steady session (boot\<lparr>stdout_buf := [1, 2, 3]\<rparr>) = Some (n, w') \<and>
      unat n = 3 \<and> stdout_buf w' = [104, 105] \<and>
      events w' = [EvPeekNamedPipe 12, EvReadFile 12 3, EvPrint DefaultPrintFunc [1, 2, 3]]) \<and>
   (\<exists>tw' ov' v'. Write_iteration steady session ramp 3 0 \<lparr>InternalHigh = 0, hEvent = 28\<rparr> boot
      = Some (Written tw' ov' v')) \<and>
   (\<exists>p' v'. Close steady session 5000 True boot = Some (p', v'))"
proof -
  have run: "ReadOutput steady session (boot\<lparr>stdout_buf := [1, 2, 3]\<rparr>) =
      Some (3, \<lparr> clock = 2, process_id = 1234, last_error = 0, child_stdin = [],
                stdout_buf = [104, 105],
                events = [EvPeekNamedPipe 12, EvReadFile 12 3,
                          EvPrint DefaultPrintFunc [1, 2, 3]] \<rparr>)"
    by (simp add: ReadOutput_def ReadOutput_loop.simps api_defs sample_defs Let_def)
  have env: "(r_ok (steady (clock boot)) \<or> r_error (steady (clock boot)) = ERROR_IO_PENDING) \<and>
      r_wait (steady (Suc (clock boot))) = STATUS_WAIT_0 \<and> r_ok (steady (Suc (Suc (clock boot))))"
    by (simp add: steady_def STATUS_WAIT_0_def)
  from ReadOutput_drain_pass [where env = steady and p = session and v = boot and data = ramp
      and len = 3 and tw = 0 and ov = "\<lparr>InternalHigh = 0, hEvent = 28\<rparr>"
      and timeout_ms = 5000 and terminate = True and w = "boot\<lparr>stdout_buf := [1, 2, 3]\<rparr>"] env
  have "(\<exists>tw' ov' v'. Write_iteration steady session ramp 3 0 \<lparr>InternalHigh = 0, hEvent = 28\<rparr> boot
      = Some (Written tw' ov' v')) \<and>
   (\<exists>p' v'. Close steady session 5000 True boot = Some (p', v'))"
    by blast
  with run show ?thesis by simp
qed

section \<open>Names of the channels\<close>

text \<open>
  Claim C6. The path of a channel is built from the identifier of the creating process
  and the address of the field that receives the read end. Provided the stream prints
  different pointers differently and prints no underscore in a pointer, two pairs that
  differ in the process or in that address get different paths, whatever their names
  are. Two sessions alive at the same time differ in one or the other.
\<close>

theorem full_name_unique:
  assumes "inj show_ptr" and "\<forall>a. CHR ''_'' \<notin> set (show_ptr a)"
    and "pid \<noteq> pid' \<or> out_read_pipe \<noteq> out_read_pipe'"
  shows "full_name show_ptr pid out_read_pipe name \<noteq> full_name show_ptr pid' out_read_pipe' name'"
proof
  assume "full_name show_ptr pid out_read_pipe name = full_name show_ptr pid' out_read_pipe' name'"
  then have "show_dec (unat pid) @ CHR ''_'' # (show_ptr out_read_pipe @ CHR ''_'' # name) =
      show_dec (unat pid') @ CHR ''_'' # (show_ptr out_read_pipe' @ CHR ''_'' # name')"
    by (simp add: full_name_def)
  from split_at_mark [OF this show_dec_no_underscore show_dec_no_underscore]
  have 1: "show_dec (unat pid) = show_dec (unat pid')"
    and 2: "show_ptr out_read_pipe @ CHR ''_'' # name = show_ptr out_read_pipe' @ CHR ''_'' # name'"
    by simp_all
  from show_dec_inj [OF 1] have "pid = pid'"
    by (simp add: word_eq_iff_unsigned [where ?'a = nat])
  moreover from split_at_mark [OF 2] assms(2) have "show_ptr out_read_pipe = show_ptr out_read_pipe'"
    by simp
  with assms(1) have "out_read_pipe = out_read_pipe'" by (simp add: inj_eq)
  ultimately show False using assms(3) by simp
qed

theorem full_name_unique_witness:
  "inj show_hex_ptr \<and> (\<forall>a. CHR ''_'' \<notin> set (show_hex_ptr a)) \<and>
   full_name show_hex_ptr 1234 4096 ''stdout'' \<noteq> full_name show_hex_ptr 1234 8192 ''stdout'' \<and>
   full_name show_hex_ptr 1234 4096 ''stdout'' = pipe_prefix @ ''1234_1000_stdout'' \<and>
   full_name show_hex_ptr 1234 8192 ''stdout'' = pipe_prefix @ ''1234_2000_stdout''"
proof -
  have 1: "inj show_hex_ptr" by (rule show_hex_ptr_inj)
  have 2: "\<forall>a. CHR ''_'' \<notin> set (show_hex_ptr a)" by (simp add: show_hex_ptr_no_underscore)
  have 3: "(1234 :: DWORD) \<noteq> 1234 \<or> (4096 :: 64 word) \<noteq> 8192" by simp
  have 4: "full_name show_hex_ptr 1234 4096 ''stdout'' = pipe_prefix @ ''1234_1000_stdout''"
    "full_name show_hex_ptr 1234 8192 ''stdout'' = pipe_prefix @ ''1234_2000_stdout''"
    by (simp_all add: full_name_def show_hex_ptr_def show_dec_def show_nat.simps
        hex_digit_def decimal_digit_def)
  from full_name_unique [OF 1 2 3, of "''stdout''" "''stdout''"] 1 2 4 show ?thesis by blast
qed

section \<open>A pair is made whole or not at all\<close>

text \<open>
  Claim C7. \<open>CreatePipePair\<close> returns true exactly when both ends were created; then the
  two output parameters hold the two new handles, neither of them invalid. Otherwise it
  returns false and leaves both output parameters as they were; if the read end had been
  created, it has been closed before the return, and if not, nothing was created and
  nothing is closed.
\<close>

theorem CreatePipePair_all_or_nothing:
  fixes env show_ptr name out_read_pipe buffer_size timeout_ms w
  defines "full \<equiv> full_name show_ptr (process_id w) out_read_pipe name"
  defines "made r \<equiv> r_ok r \<and> r_handle r \<noteq> INVALID_HANDLE_VALUE"
  assumes run: "CreatePipePair env show_ptr name out_read_pipe (rd, wr) buffer_size timeout_ms w
                  = (ok, (rd', wr'), w')"
  shows "if made (env (clock w)) \<and> made (env (Suc (clock w)))
         then ok \<and> rd' = r_handle (env (clock w)) \<and> wr' = r_handle (env (Suc (clock w))) \<and>
              rd' \<noteq> INVALID_HANDLE_VALUE \<and> wr' \<noteq> INVALID_HANDLE_VALUE \<and>
              events w' = events w @
                [EvCreateNamedPipeA full buffer_size timeout_ms, EvCreateFileA full]
         else \<not> ok \<and> rd' = rd \<and> wr' = wr \<and>
              events w' = events w @
                (if made (env (clock w))
                 then [EvCreateNamedPipeA full buffer_size timeout_ms, EvCreateFileA full,
                       EvCloseHandle (r_handle (env (clock w)))]
                 else [EvCreateNamedPipeA full buffer_size timeout_ms])"
  using run
  by (auto simp: CreatePipePair_def CreateNamedPipeA_def CreateFileA_def CloseHandle_def
      GetCurrentProcessId_def Let_def full_def made_def split: if_splits)

theorem CreatePipePair_all_or_nothing_witness:
  "\<exists>w'. CreatePipePair half_made show_hex_ptr ''stdin'' 4096
          (INVALID_HANDLE_VALUE, INVALID_HANDLE_VALUE) 16777216 10000 boot =
        (False, (INVALID_HANDLE_VALUE, INVALID_HANDLE_VALUE), w') \<and>
      events w' = [EvCreateNamedPipeA (pipe_prefix @ ''1234_1000_stdin'') 16777216 10000,
                   EvCreateFileA (pipe_prefix @ ''1234_1000_stdin''),
                   EvCloseHandle 40]"
proof -
  obtain ok rd wr w' where run:
    "CreatePipePair half_made show_hex_ptr ''stdin'' 4096
       (INVALID_HANDLE_VALUE, INVALID_HANDLE_VALUE) 16777216 10000 boot = (ok, (rd, wr), w')"
    by (metis prod.exhaust)
  have name: "full_name show_hex_ptr (process_id boot) 4096 ''stdin'' =
      pipe_prefix @ ''1234_1000_stdin''"
    by (simp add: full_name_def show_hex_ptr_def show_dec_def show_nat.simps
        hex_digit_def decimal_digit_def boot_def)
  from CreatePipePair_all_or_nothing [OF run]
  have "\<not> ok" "rd = INVALID_HANDLE_VALUE" "wr = INVALID_HANDLE_VALUE"
    "events w' = [EvCreateNamedPipeA (pipe_prefix @ ''1234_1000_stdin'') 16777216 10000,
                  EvCreateFileA (pipe_prefix @ ''1234_1000_stdin''),
                  EvCloseHandle 40]"
    unfolding name
    by (simp_all add: sample_defs INVALID_HANDLE_VALUE_def)
  with run show ?thesis by simp
qed

section \<open>The size of a request\<close>

text \<open>
  Claim C9. In every iteration of \<open>Write\<close>, in any state the loop reaches from its start,
  the count passed to \<open>WriteFile\<close> is the length cut to 32 bits minus the 32-bit running
  total. This count is the number of bytes not yet sent exactly when the length is below
  \<open>2^32\<close>: for such a length it always is, for a length of \<open>2^32\<close> or more it never is.
\<close>

theorem Write_request_size:
  assumes "Write_reaches env p data len (0, ov0, w0) (tw, ov, w)" and "ucast tw < len"
  shows
    "(\<exists>it rest. Write_iteration env p data len tw ov w = Some it \<and>
        events (world_of it) = events w @
          EvWriteFile (m_stdin_w p) (unat tw) (ucast len - tw) # rest) \<and>
     (unat (ucast len - tw :: DWORD) = unat len - unat tw \<longleftrightarrow> unat len < 2 ^ 32)"
proof
  show "\<exists>it rest. Write_iteration env p data len tw ov w = Some it \<and>
        events (world_of it) = events w @
          EvWriteFile (m_stdin_w p) (unat tw) (ucast len - tw) # rest"
    by (rule Write_iteration_first_event)
next
  from Write_reaches_bound [OF assms(1)] have le: "unat tw \<le> unat (ucast len :: DWORD)"
    by simp
  then have req: "unat (ucast len - tw :: DWORD) = unat (ucast len :: DWORD) - unat tw"
    by (simp add: unat_sub word_le_nat_alt)
  have trunc: "unat (ucast len :: DWORD) = unat len mod 2 ^ 32"
    by (simp add: unsigned_ucast_eq take_bit_eq_mod)
  from assms(2) have lt: "unat tw < unat len"
    by (simp add: word_less_nat_alt unat_ucast_DWORD)
  show "unat (ucast len - tw :: DWORD) = unat len - unat tw \<longleftrightarrow> unat len < 2 ^ 32"
  proof
    assume "unat (ucast len - tw :: DWORD) = unat len - unat tw"
    with req le lt have "unat len mod 2 ^ 32 = unat len"
      unfolding trunc by linarith
    then show "unat len < 2 ^ 32"
      by (metis mod_less_divisor zero_less_numeral zero_less_power)
  next
    assume "unat len < 2 ^ 32"
    with req trunc show "unat (ucast len - tw :: DWORD) = unat len - unat tw" by simp
  qed
qed

theorem Write_request_size_witness:
  "Write_reaches steady session ramp 4294967299 (0, \<lparr>InternalHigh = 0, hEvent = 28\<rparr>, boot)
     second_state \<and>
   ucast (2 :: DWORD) < (4294967299 :: size_t) \<and>
   unat (ucast (4294967299 :: size_t) - 2 :: DWORD) = 1 \<and>
   unat (4294967299 :: size_t) - unat (2 :: DWORD) = 4294967297 \<and>
   (\<exists>it rest. Write_iteration steady session ramp 4294967299 (fst second_state)
        (fst (snd second_state)) (snd (snd second_state)) = Some it \<and>
      events (world_of it) = events (snd (snd second_state)) @ EvWriteFile 8 2 1 # rest)"
proof -
  have first: "Write_iteration steady session ramp 4294967299 0 \<lparr>InternalHigh = 0, hEvent = 28\<rparr>
      boot =
    Some (Written 2 \<lparr>InternalHigh = 2, hEvent = 28\<rparr>
      \<lparr> clock = 5, process_id = 1234, last_error = 0, child_stdin = [1, 2], stdout_buf = [],
        events = [EvWriteFile 8 0 3, EvWaitForMultipleObjects [28, 20] False 10000,
                  EvGetOverlappedResult 8 False, EvPeekNamedPipe 12, EvReadFile 12 2,
                  EvPrint DefaultPrintFunc [104, 105]] \<rparr>)"
    by (simp add: Write_iteration_def ReadOutput_def ReadOutput_loop.simps
        api_defs sample_defs Let_def upt_conv_Cons ucast_4GiB_3)
  have c0: "ucast (0 :: DWORD) < (4294967299 :: size_t)" by simp
  have r: "Write_reaches steady session ramp 4294967299 (0, \<lparr>InternalHigh = 0, hEvent = 28\<rparr>, boot)
     second_state"
    unfolding second_state_def
    by (rule Write_reaches.iterate [OF Write_reaches.start c0 first])
  have c2: "ucast (2 :: DWORD) < (4294967299 :: size_t)" by simp
  have c3: "unat (ucast (4294967299 :: size_t) - 2 :: DWORD) = 1"
    unfolding ucast_4GiB_3 by simp
  from Write_request_size [OF r [unfolded second_state_def] c2, unfolded ucast_4GiB_3]
  have "\<exists>it rest. Write_iteration steady session ramp 4294967299 (fst second_state)
        (fst (snd second_state)) (snd (snd second_state)) = Some it \<and>
      events (world_of it) = events (snd (snd second_state)) @ EvWriteFile 8 2 1 # rest"
    by (simp add: second_state_def session_def)
  with r c2 c3 show ?thesis by simp
qed

section \<open>The drain with no sink\<close>

text \<open>
  Claim C10. With the sink set to null, a drain pass returns the same count and leaves
  the same world as with any sink, but for the calls of the sink, of which there are none:
  the same bytes are read from the output channel and dropped. When no call fails, these
  are all the bytes that waited when the pass measured the channel.
\<close>

theorem drain_without_sink:
  fixes env :: env and p :: Pipe and w :: world
  defines "B \<equiv> take stdout_capacity (stdout_buf w @ r_child_out (env (clock w)))"
  shows
    "map_option (\<lambda>(n, w'). (n, silent w')) (ReadOutput env (SetPrintFunc None p) w) =
       map_option (\<lambda>(n, w'). (n, silent w')) (ReadOutput env p w) \<and>
     (\<exists>n w' chunks tail extra.
        ReadOutput env (SetPrintFunc None p) w = Some (n, w') \<and>
        unat n = length (concat chunks) \<and>
        concat chunks = take (unat n) B \<and>
        stdout_buf w' = drop (unat n) B @ extra \<and>
        events w' = events w @ EvPeekNamedPipe (m_stdout_r p) #
                      map (\<lambda>c. EvReadFile (m_stdout_r p) (of_nat (length c))) chunks @ tail \<and>
        (tail = [] \<or> (\<exists>k. tail = [EvReadFile (m_stdout_r p) k])) \<and>
        ((\<forall>t. r_ok (env t)) \<longrightarrow> unat n = length B \<and> stdout_buf w' = extra))"
proof
  show "map_option (\<lambda>(n, w'). (n, silent w')) (ReadOutput env (SetPrintFunc None p) w) =
       map_option (\<lambda>(n, w'). (n, silent w')) (ReadOutput env p w)"
    by (rule ReadOutput_without_sink)
next
  let ?q = "SetPrintFunc None p"
  have q: "m_print_fn ?q = None" "m_stdout_r ?q = m_stdout_r p"
    by (simp_all add: SetPrintFunc_def)
  from ReadOutput_spec [of env ?q w, folded B_def]
  obtain n w' chunks tail extra where
    a: "ReadOutput env ?q w = Some (n, w')" "unat n \<le> length B"
      "concat chunks = take (unat n) B"
      "stdout_buf w' = drop (unat n) B @ extra"
      "events w' = events w @ EvPeekNamedPipe (m_stdout_r ?q) #
                      concat (map (read_events ?q) chunks) @ tail"
      "if r_ok (env (clock w))
         then tail = [] \<and> unat n = length B \<or>
              (\<exists>k. tail = [EvReadFile (m_stdout_r ?q) k]) \<and>
              \<not> r_ok (env (Suc (clock w) + length chunks))
         else n = 0 \<and> chunks = [] \<and> tail = []"
    by blast
  from a(2,3) have 1: "unat n = length (concat chunks)" by simp
  from a(5) have 2: "events w' = events w @ EvPeekNamedPipe (m_stdout_r p) #
      map (\<lambda>c. EvReadFile (m_stdout_r p) (of_nat (length c))) chunks @ tail"
    by (simp add: read_events_None [OF q(1)] q(2))
  from a(6) have 3: "tail = [] \<or> (\<exists>k. tail = [EvReadFile (m_stdout_r p) k])"
    by (auto simp: q(2) split: if_splits)
  from a(6) a(4) have 4: "(\<forall>t. r_ok (env t)) \<longrightarrow> unat n = length B \<and> stdout_buf w' = extra"
    by (auto split: if_splits)
  from a(1,3,4) 1 2 3 4
  show "\<exists>n w' chunks tail extra.
        ReadOutput env ?q w = Some (n, w') \<and>
        unat n = length (concat chunks) \<and>
        concat chunks = take (unat n) B \<and>
        stdout_buf w' = drop (unat n) B @ extra \<and>
        events w' = events w @ EvPeekNamedPipe (m_stdout_r p) #
                      map (\<lambda>c. EvReadFile (m_stdout_r p) (of_nat (length c))) chunks @ tail \<and>
        (tail = [] \<or> (\<exists>k. tail = [EvReadFile (m_stdout_r p) k])) \<and>
        ((\<forall>t. r_ok (env t)) \<longrightarrow> unat n = length B \<and> stdout_buf w' = extra)"
    by blast
qed

theorem drain_without_sink_witness:
  "(\<forall>t. r_ok (steady t)) \<and>
   ReadOutput steady session (boot\<lparr>stdout_buf := [1, 2, 3]\<rparr>) =
     Some (3, \<lparr> clock = 2, process_id = 1234, last_error = 0, child_stdin = [],
               stdout_buf = [104, 105],
               events = [EvPeekNamedPipe 12, EvReadFile 12 3,
                         EvPrint DefaultPrintFunc [1, 2, 3]] \<rparr>) \<and>
   map_option (\<lambda>(n, w'). (n, silent w'))
     (ReadOutput steady (SetPrintFunc None session) (boot\<lparr>stdout_buf := [1, 2, 3]\<rparr>)) =
     Some (3, \<lparr> clock = 2, process_id = 1234, last_error = 0, child_stdin = [],
               stdout_buf = [104, 105],
               events = [EvPeekNamedPipe 12, EvReadFile 12 3] \<rparr>)"
proof -
  have ok: "\<forall>t. r_ok (steady t)" by (simp add: steady_def)
  have run: "ReadOutput steady session (boot\<lparr>stdout_buf := [1, 2, 3]\<rparr>) =
     Some (3, \<lparr> clock = 2, process_id = 1234, last_error = 0, child_stdin = [],
               stdout_buf = [104, 105],
               events = [EvPeekNamedPipe 12, EvReadFile 12 3,
                         EvPrint DefaultPrintFunc [1, 2, 3]] \<rparr>)"
    by (simp add: ReadOutput_def ReadOutput_loop.simps api_defs sample_defs Let_def)
  from drain_without_sink [of steady session "boot\<lparr>stdout_buf := [1, 2, 3]\<rparr>"]
  have "map_option (\<lambda>(n, w'). (n, silent w'))
     (ReadOutput steady (SetPrintFunc None session) (boot\<lparr>stdout_buf := [1, 2, 3]\<rparr>)) =
     map_option (\<lambda>(n, w'). (n, silent w'))
       (ReadOutput steady session (boot\<lparr>stdout_buf := [1, 2, 3]\<rparr>))"
    by blast
  with ok run show ?thesis by (simp add: silent_def)
qed

end
